theory Spec2Isabelle
  imports Complex_Main "HOL-Library.Word"
begin

section \<open>Column types, chunk statistics and encoders\<close>

text \<open>
  Modelled from the spec: \<^verbatim>\<open>SQLTypeInfo\<close> (\<^verbatim>\<open>sqltypes.h\<close> is not among the sources). The
  specification gives it a family (int, fp, decimal, bool, time, time-interval, string,
  array, geometry), a width, a compression (\<^verbatim>\<open>NONE\<close> or \<^verbatim>\<open>DICT\<close>), a dictionary id, the
  decimal \<open>(dimension, scale)\<close>, \<^verbatim>\<open>notnull\<close> and the date-in-days flag. The fields are
  named after the accessors the source calls; \<open>get_element_size\<close> is the result of the
  free function of that name, \<open>get_size\<close> the declared size (the array size of a
  fixed-length array).
\<close>

datatype type_family =
  FamInteger | FamFp | FamDecimal | FamBoolean | FamTime | FamTimeInterval
  | FamString | FamArray | FamGeometry

datatype EncodingType = kENCODING_NONE | kENCODING_DICT

record SQLTypeInfo =
  get_family :: type_family
  get_compression :: EncodingType
  get_comp_param :: int
  get_dimension :: int
  get_scale :: int
  get_notnull :: bool
  is_date_in_days :: bool
  get_size :: nat
  get_element_size :: nat
  is_fixlen_array :: bool
  is_varlen_indeed :: bool

definition is_integer :: "SQLTypeInfo \<Rightarrow> bool" where
  "is_integer t = (get_family t = FamInteger)"

definition is_boolean :: "SQLTypeInfo \<Rightarrow> bool" where
  "is_boolean t = (get_family t = FamBoolean)"

definition is_time :: "SQLTypeInfo \<Rightarrow> bool" where
  "is_time t = (get_family t = FamTime)"

definition is_timeinterval :: "SQLTypeInfo \<Rightarrow> bool" where
  "is_timeinterval t = (get_family t = FamTimeInterval)"

definition is_fp :: "SQLTypeInfo \<Rightarrow> bool" where
  "is_fp t = (get_family t = FamFp)"

definition is_decimal :: "SQLTypeInfo \<Rightarrow> bool" where
  "is_decimal t = (get_family t = FamDecimal)"

definition is_string :: "SQLTypeInfo \<Rightarrow> bool" where
  "is_string t = (get_family t = FamString)"

definition is_array :: "SQLTypeInfo \<Rightarrow> bool" where
  "is_array t = (get_family t = FamArray)"

definition is_geometry :: "SQLTypeInfo \<Rightarrow> bool" where
  "is_geometry t = (get_family t = FamGeometry)"

text \<open>\<^verbatim>\<open>is_integral\<close>, line 50 of the source.\<close>

definition is_integral :: "SQLTypeInfo \<Rightarrow> bool" where
  "is_integral t = (is_integer t \<or> is_boolean t \<or> is_time t \<or> is_timeinterval t)"

text \<open>
  A \<^verbatim>\<open>double\<close> or \<^verbatim>\<open>float\<close> is modelled by the rational number it denotes (NaN and
  the infinities are left out); comparisons of such values are exact. The limits the
  source takes from \<^verbatim>\<open>std::numeric_limits\<close>: for \<^verbatim>\<open>double\<close>, \<^verbatim>\<open>min()\<close> is the smallest
  positive normal value \<open>2^-1022\<close> and \<^verbatim>\<open>max()\<close> is \<open>2^1024 - 2^971\<close>.
\<close>

definition DBL_MIN :: rat where
  "DBL_MIN = 1 / 2 ^ 1022"

definition DBL_MAX :: rat where
  "DBL_MAX = 2 ^ 1024 - 2 ^ 971"

definition INT64_MIN :: int where
  "INT64_MIN = - (2 ^ 63)"

definition INT64_MAX :: int where
  "INT64_MAX = 2 ^ 63 - 1"

definition UINT64_MAX :: int where
  "UINT64_MAX = 2 ^ 64 - 1"

text \<open>
  Modelled from the spec: \<^verbatim>\<open>ChunkMetadata\<close> is \<open>{numBytes, numElements, stats}\<close>, and the
  \<^verbatim>\<open>Encoder\<close> is the per-chunk accumulator of \<open>(min, max, has-null, numElements)\<close> that
  emits them (\<^verbatim>\<open>Encoder.h\<close> and \<^verbatim>\<open>FixedLengthArrayNoneEncoder.h\<close> are not among the
  sources). The statistics keep an integer range and a floating-point range; which of
  the two a column uses is decided by the caller (\<^verbatim>\<open>updateColumnMetadata\<close>).
  \<^verbatim>\<open>updateStats(v, is_null)\<close> widens the range by \<open>v\<close> and accumulates the null flag;
  \<^verbatim>\<open>getMetadata\<close> writes the element count, the buffer's byte size and the statistics
  into the metadata slot. For the fixed-length array encoder (the flag says whether the
  \<^verbatim>\<open>dynamic_cast\<close> to it succeeds) the model records the element addresses, as byte
  offsets into the buffer, that \<^verbatim>\<open>updateMetadata\<close> was called on.
\<close>

record ChunkStats =
  has_nulls :: bool
  min_int :: int
  max_int :: int
  min_fp :: rat
  max_fp :: rat

record ChunkMetadata =
  numBytes :: nat
  numElements :: nat
  chunkStats :: ChunkStats

record Encoder =
  num_elems :: nat
  enc_stats :: ChunkStats
  is_FixedLengthArrayNoneEncoder :: bool
  array_updates :: "nat list"

text \<open>An encoder that has seen no element; the examples start from it.\<close>

definition fresh_encoder :: Encoder where
  "fresh_encoder =
     \<lparr>num_elems = 0,
      enc_stats = \<lparr>has_nulls = False, min_int = INT64_MAX, max_int = INT64_MIN,
                   min_fp = DBL_MAX, max_fp = - DBL_MAX\<rparr>,
      is_FixedLengthArrayNoneEncoder = False,
      array_updates = []\<rparr>"

definition setNumElems :: "Encoder \<Rightarrow> nat \<Rightarrow> Encoder" where
  "setNumElems e n = e\<lparr>num_elems := n\<rparr>"

definition updateStats_int64 :: "Encoder \<Rightarrow> int \<Rightarrow> bool \<Rightarrow> Encoder" where
  "updateStats_int64 e v is_null =
     e\<lparr>enc_stats := (enc_stats e)\<lparr>has_nulls := (has_nulls (enc_stats e) \<or> is_null),
                                     min_int := min (min_int (enc_stats e)) v,
                                     max_int := max (max_int (enc_stats e)) v\<rparr>\<rparr>"

definition updateStats_double :: "Encoder \<Rightarrow> rat \<Rightarrow> bool \<Rightarrow> Encoder" where
  "updateStats_double e v is_null =
     e\<lparr>enc_stats := (enc_stats e)\<lparr>has_nulls := (has_nulls (enc_stats e) \<or> is_null),
                                     min_fp := min (min_fp (enc_stats e)) v,
                                     max_fp := max (max_fp (enc_stats e)) v\<rparr>\<rparr>"

definition updateMetadata :: "Encoder \<Rightarrow> nat \<Rightarrow> Encoder" where
  "updateMetadata e daddr = e\<lparr>array_updates := array_updates e @ [daddr]\<rparr>"

section \<open>Buffers and machine integers\<close>

text \<open>
  The update and vacuum code of \<^verbatim>\<open>Fragmenter/UpdelStorage.cpp\<close> works on the raw
  memory of a chunk's buffers. A buffer is modelled by the cells behind
  \<^verbatim>\<open>getMemoryPtr()\<close> (bytes for a data buffer, \<^verbatim>\<open>StringOffsetT\<close> values for the offset
  buffer of a variable-length column), the byte count \<^verbatim>\<open>size()\<close> that \<^verbatim>\<open>setSize\<close>
  changes (the memory itself is not resized), the flag that \<^verbatim>\<open>setUpdated()\<close> raises, and
  its \<^verbatim>\<open>encoder\<close>.
\<close>

type_synonym byte = "8 word"

record 'a Buffer =
  mem :: "'a list"
  buf_size :: nat
  is_updated :: bool
  encoder :: Encoder

definition setSize :: "'a Buffer \<Rightarrow> nat \<Rightarrow> 'a Buffer" where
  "setSize b n = b\<lparr>buf_size := n\<rparr>"

definition setUpdated :: "'a Buffer \<Rightarrow> 'a Buffer" where
  "setUpdated b = b\<lparr>is_updated := True\<rparr>"

definition getMetadata :: "'a Buffer \<Rightarrow> ChunkMetadata" where
  "getMetadata b =
     \<lparr>numBytes = buf_size b, numElements = num_elems (encoder b),
      chunkStats = enc_stats (encoder b)\<rparr>"

text \<open>
  Sizes and row numbers are \<^verbatim>\<open>size_t\<close>/\<^verbatim>\<open>uint64_t\<close>, the two block cursors of the
  vacuum loops are \<^verbatim>\<open>int64_t\<close>. They are modelled as integers with the conversions of
  the C++ expressions written out: \<open>u64\<close> is the value of an expression computed in
  \<^verbatim>\<open>uint64_t\<close>, \<open>s64\<close> the value it has once stored into an \<^verbatim>\<open>int64_t\<close>, \<open>s32\<close> the
  same for \<^verbatim>\<open>int32_t\<close> (\<^verbatim>\<open>StringOffsetT\<close>).
\<close>

definition u64 :: "int \<Rightarrow> int" where
  "u64 x = x mod 2 ^ 64"

definition s64 :: "int \<Rightarrow> int" where
  "s64 x = (x + 2 ^ 63) mod 2 ^ 64 - 2 ^ 63"

definition s32 :: "int \<Rightarrow> int" where
  "s32 x = (x + 2 ^ 31) mod 2 ^ 32 - 2 ^ 31"

text \<open>
  \<^verbatim>\<open>memmove(base + dst, base + src, n)\<close> inside one buffer. The ranges may overlap; the
  bytes copied are the ones the source range held before the call. A range that leaves
  the memory is undefined behaviour in C++ and \<open>None\<close> here.
\<close>

definition memmove :: "'a list \<Rightarrow> nat \<Rightarrow> nat \<Rightarrow> nat \<Rightarrow> 'a list option" where
  "memmove m dst src n =
     (if src + n \<le> length m \<and> dst + n \<le> length m
      then Some (take dst m @ take n (drop src m) @ drop (dst + n) m)
      else None)"

section \<open>Offsets of the deleted rows\<close>

text \<open>
  \<^verbatim>\<open>InsertOrderFragmenter::getVacuumOffsets\<close>: the loop
  \<^verbatim>\<open>for (size_t r = 0; r < nrows_in_chunk; ++r) if (data_addr[r]) push_back(r)\<close>
  over the delete column's buffer. The second argument \<^verbatim>\<open>frag_offsets\<close> is not read by
  the source. A read past the memory is \<open>None\<close>.
\<close>

function getVacuumOffsets_loop :: "byte list \<Rightarrow> nat \<Rightarrow> nat \<Rightarrow> nat list \<Rightarrow> nat list option" where
  "getVacuumOffsets_loop data_addr nrows_in_chunk r deleted_offsets =
     (if r < nrows_in_chunk then
        (if r < length data_addr then
           getVacuumOffsets_loop data_addr nrows_in_chunk (Suc r)
             (if data_addr ! r \<noteq> 0 then deleted_offsets @ [r] else deleted_offsets)
         else None)
      else Some deleted_offsets)"
  by pat_completeness auto
termination
  by (relation "measure (\<lambda>(d, n, r, acc). n - r)") auto

definition getVacuumOffsets :: "byte Buffer \<Rightarrow> nat list \<Rightarrow> nat list option" where
  "getVacuumOffsets data_buffer frag_offsets =
     getVacuumOffsets_loop (mem data_buffer) (buf_size data_buffer) 0 []"

text \<open>
  The precondition \<^verbatim>\<open>compactRows\<close> and the two row vacuums put on their list of
  deleted offsets: strictly increasing, every offset below the fragment's row count.
\<close>

definition vacuum_offsets_ok :: "nat \<Rightarrow> nat list \<Rightarrow> bool" where
  "vacuum_offsets_ok nrows_in_fragment frag_offsets =
     (sorted_wrt (<) frag_offsets \<and> list_all (\<lambda>d. d < nrows_in_fragment) frag_offsets)"

section \<open>Fixed-length vacuum\<close>

text \<open>
  \<^verbatim>\<open>InsertOrderFragmenter::vacuum_fixlen_rows\<close>. The loop runs over
  \<^verbatim>\<open>irow = 0 .. nrows_to_vacuum\<close> inclusive; in round \<^verbatim>\<open>irow\<close> the row to vacuum is
  \<^verbatim>\<open>frag_offsets[irow]\<close>, and \<^verbatim>\<open>nrows_in_fragment\<close> in the last round. One round is
  \<open>vacuum_fixlen_step\<close>; its state is
  \<open>(irow_of_blk_to_keep, irow_of_blk_to_fill, nbytes_fix_data_to_keep, memory)\<close>.
  The loop over the indices of \<^verbatim>\<open>frag_offsets\<close> is the recursion over the list, with the
  last round at the empty list.
\<close>

type_synonym fixlen_state = "int \<times> int \<times> int \<times> byte list"

definition vacuum_fixlen_step :: "nat \<Rightarrow> nat \<Rightarrow> fixlen_state \<Rightarrow> fixlen_state option" where
  "vacuum_fixlen_step element_size irow_to_vacuum st =
     (case st of (irow_of_blk_to_keep, irow_of_blk_to_fill, nbytes_fix_data_to_keep, m) \<Rightarrow>
        let nrows_to_keep = s64 (u64 (int irow_to_vacuum - irow_of_blk_to_keep)) in
        if nrows_to_keep > 0 then
          let nbytes_to_keep = u64 (nrows_to_keep * int element_size) in
          (case (if irow_of_blk_to_fill \<noteq> irow_of_blk_to_keep
                 then memmove m (nat (u64 (irow_of_blk_to_fill * int element_size)))
                                (nat (u64 (irow_of_blk_to_keep * int element_size)))
                                (nat nbytes_to_keep)
                 else Some m) of
             None \<Rightarrow> None
           | Some m' \<Rightarrow>
               Some (s64 (u64 (int irow_to_vacuum + 1)),
                     s64 (irow_of_blk_to_fill + nrows_to_keep),
                     u64 (nbytes_fix_data_to_keep + nbytes_to_keep),
                     m'))
        else Some (s64 (u64 (int irow_to_vacuum + 1)), irow_of_blk_to_fill,
                   nbytes_fix_data_to_keep, m))"

fun vacuum_fixlen_loop :: "nat \<Rightarrow> nat \<Rightarrow> nat list \<Rightarrow> fixlen_state \<Rightarrow> fixlen_state option" where
  "vacuum_fixlen_loop element_size nrows_in_fragment [] st =
     vacuum_fixlen_step element_size nrows_in_fragment st"
| "vacuum_fixlen_loop element_size nrows_in_fragment (d # frag_offsets) st =
     (case vacuum_fixlen_step element_size d st of
        None \<Rightarrow> None
      | Some st' \<Rightarrow> vacuum_fixlen_loop element_size nrows_in_fragment frag_offsets st')"

text \<open>
  The result is the memory after the moves and the returned
  \<^verbatim>\<open>nbytes_fix_data_to_keep\<close>.
\<close>

definition vacuum_fixlen_rows :: "nat \<Rightarrow> nat \<Rightarrow> nat list \<Rightarrow> byte list \<Rightarrow> (byte list \<times> nat) option" where
  "vacuum_fixlen_rows element_size nrows_in_fragment frag_offsets data_addr =
     (case vacuum_fixlen_loop element_size nrows_in_fragment frag_offsets (0, 0, 0, data_addr) of
        None \<Rightarrow> None
      | Some (k, f, nbytes_fix_data_to_keep, m) \<Rightarrow> Some (m, nat nbytes_fix_data_to_keep))"

text \<open>
  What the vacuum is to produce: the bytes of the rows of \<open>[0, nrows)\<close> that are not
  deleted, row after row in their original order. Row \<open>i\<close> of a column of
  \<open>element_size\<close> bytes per row is the slice \<open>[i * element_size, (i + 1) * element_size)\<close>.
\<close>

definition row_bytes :: "nat \<Rightarrow> 'a list \<Rightarrow> nat \<Rightarrow> 'a list" where
  "row_bytes element_size m i = take element_size (drop (i * element_size) m)"

definition surviving_rows :: "nat \<Rightarrow> nat \<Rightarrow> nat list \<Rightarrow> 'a list \<Rightarrow> 'a list" where
  "surviving_rows element_size nrows frag_offsets m =
     concat (map (row_bytes element_size m)
                 (filter (\<lambda>i. i \<notin> set frag_offsets) [0..<nrows]))"

section \<open>Variable-length vacuum\<close>

text \<open>
  \<^verbatim>\<open>InsertOrderFragmenter::vacuum_varlen_rows\<close>. The offset buffer is read through
  \<^verbatim>\<open>index_array = (StringOffsetT*)indices_addr\<close>; the model keeps it as the list of its
  \<^verbatim>\<open>StringOffsetT\<close> (\<^verbatim>\<open>int32_t\<close>) entries, so the second \<^verbatim>\<open>memmove\<close>, whose byte offsets
  and length are \<^verbatim>\<open>sizeof(StringOffsetT)\<close> times a row number, moves whole entries. A read
  or write outside the list is \<open>None\<close>.
\<close>

definition read_index :: "int list \<Rightarrow> int \<Rightarrow> int option" where
  "read_index index_array i =
     (if 0 \<le> i \<and> nat i < length index_array then Some (index_array ! nat i) else None)"

text \<open>
  The inner loop \<^verbatim>\<open>for (i = 0; i < nrows_to_keep; ++i)\<close> that rebases the offsets of the
  block: \<^verbatim>\<open>index = ibyte_var_data_to_keep + (index - index_base)\<close>, computed in
  \<^verbatim>\<open>size_t\<close> and stored into the \<^verbatim>\<open>int32_t\<close> entry.
\<close>

fun rebase_loop :: "int \<Rightarrow> int \<Rightarrow> int \<Rightarrow> nat list \<Rightarrow> int list \<Rightarrow> int list option" where
  "rebase_loop irow_of_blk_to_keep ibyte_var_data_to_keep index_base [] index_array =
     Some index_array"
| "rebase_loop irow_of_blk_to_keep ibyte_var_data_to_keep index_base (i # rest) index_array =
     (case read_index index_array (irow_of_blk_to_keep + int i) of
        None \<Rightarrow> None
      | Some index \<Rightarrow>
          rebase_loop irow_of_blk_to_keep ibyte_var_data_to_keep index_base rest
            (index_array[nat (irow_of_blk_to_keep + int i) :=
               s32 (u64 (ibyte_var_data_to_keep + s32 (index - index_base)))]))"

text \<open>
  The state of the outer loop is \<open>(irow_of_blk_to_keep, irow_of_blk_to_fill,
  nbytes_fix_data_to_keep, nbytes_var_data_to_keep, data memory, index_array)\<close>;
  \<open>data_size\<close> is \<^verbatim>\<open>data_buffer->size()\<close>.
\<close>

type_synonym varlen_state = "int \<times> int \<times> int \<times> int \<times> byte list \<times> int list"

definition vacuum_varlen_step :: "nat \<Rightarrow> bool \<Rightarrow> nat \<Rightarrow> varlen_state \<Rightarrow> varlen_state option" where
  "vacuum_varlen_step data_size is_last_one irow_to_vacuum st =
     (case st of (irow_of_blk_to_keep, irow_of_blk_to_fill, nbytes_fix_data_to_keep,
                  nbytes_var_data_to_keep, data_addr, index_array) \<Rightarrow>
        let nrows_to_keep = s64 (u64 (int irow_to_vacuum - irow_of_blk_to_keep)) in
        if nrows_to_keep > 0 then
          (case (if is_last_one then Some (int data_size)
                 else read_index index_array (int irow_to_vacuum)) of
             None \<Rightarrow> None
           | Some hi \<Rightarrow>
          (case read_index index_array irow_of_blk_to_keep of
             None \<Rightarrow> None
           | Some index_base \<Rightarrow>
               let ibyte_var_data_to_keep = nbytes_var_data_to_keep;
                   nbytes_to_keep = u64 (hi - index_base) in
               (case (if irow_of_blk_to_fill \<noteq> irow_of_blk_to_keep
                      then (case memmove data_addr (nat ibyte_var_data_to_keep)
                                   (nat (u64 index_base)) (nat nbytes_to_keep) of
                              None \<Rightarrow> None
                            | Some data_addr' \<Rightarrow>
                                (case rebase_loop irow_of_blk_to_keep ibyte_var_data_to_keep
                                        index_base [0..<nat nrows_to_keep] index_array of
                                   None \<Rightarrow> None
                                 | Some index_array' \<Rightarrow> Some (data_addr', index_array')))
                      else Some (data_addr, index_array)) of
                  None \<Rightarrow> None
                | Some (data_addr', index_array') \<Rightarrow>
                    (case (if irow_of_blk_to_fill \<noteq> irow_of_blk_to_keep
                           then memmove index_array' (nat irow_of_blk_to_fill)
                                  (nat irow_of_blk_to_keep) (nat nrows_to_keep)
                           else Some index_array') of
                       None \<Rightarrow> None
                     | Some index_array'' \<Rightarrow>
                         Some (s64 (u64 (int irow_to_vacuum + 1)),
                               s64 (irow_of_blk_to_fill + nrows_to_keep),
                               u64 (nbytes_fix_data_to_keep + u64 (nrows_to_keep * 4)),
                               u64 (nbytes_var_data_to_keep + nbytes_to_keep),
                               data_addr', index_array'')))))
        else Some (s64 (u64 (int irow_to_vacuum + 1)), irow_of_blk_to_fill,
                   nbytes_fix_data_to_keep, nbytes_var_data_to_keep, data_addr, index_array))"

fun vacuum_varlen_loop :: "nat \<Rightarrow> nat \<Rightarrow> nat list \<Rightarrow> varlen_state \<Rightarrow> varlen_state option" where
  "vacuum_varlen_loop data_size nrows_in_fragment [] st =
     vacuum_varlen_step data_size True nrows_in_fragment st"
| "vacuum_varlen_loop data_size nrows_in_fragment (d # frag_offsets) st =
     (case vacuum_varlen_step data_size False d st of
        None \<Rightarrow> None
      | Some st' \<Rightarrow> vacuum_varlen_loop data_size nrows_in_fragment frag_offsets st')"

text \<open>
  The result is the data memory, the index array and the returned
  \<^verbatim>\<open>nbytes_var_data_to_keep\<close>.
\<close>

definition vacuum_varlen_rows ::
  "nat \<Rightarrow> nat list \<Rightarrow> byte Buffer \<Rightarrow> int list \<Rightarrow> (byte list \<times> int list \<times> nat) option" where
  "vacuum_varlen_rows nrows_in_fragment frag_offsets data_buffer index_array =
     (case vacuum_varlen_loop (buf_size data_buffer) nrows_in_fragment frag_offsets
             (0, 0, 0, 0, mem data_buffer, index_array) of
        None \<Rightarrow> None
      | Some (k, f, nfix, nbytes_var_data_to_keep, m, ia) \<Rightarrow>
          Some (m, ia, nat nbytes_var_data_to_keep))"

text \<open>
  The part of the \<^verbatim>\<open>varlen_vacuum\<close> closure of \<^verbatim>\<open>compactRows\<close> that works on the two
  buffers (lines 717 to 727): the row vacuum, \<^verbatim>\<open>setNumElems\<close>, \<^verbatim>\<open>setSize\<close> and
  \<^verbatim>\<open>setUpdated\<close> on the data buffer, the terminal entry
  \<^verbatim>\<open>index_array[nrows_to_keep] = data_buffer->size()\<close>, and the size of the offset buffer.
  \<open>nrows_to_keep\<close> is computed by \<^verbatim>\<open>compactRows\<close> in \<^verbatim>\<open>size_t\<close>.
\<close>

definition compact_nrows_to_keep :: "nat \<Rightarrow> nat list \<Rightarrow> nat" where
  "compact_nrows_to_keep nrows_in_fragment frag_offsets =
     nat (u64 (int nrows_in_fragment - int (length frag_offsets)))"

definition sizeof_StringOffsetT :: nat where
  "sizeof_StringOffsetT = 4"

definition varlen_vacuum_buffers ::
  "nat \<Rightarrow> nat list \<Rightarrow> byte Buffer \<Rightarrow> int Buffer \<Rightarrow> (byte Buffer \<times> int Buffer) option" where
  "varlen_vacuum_buffers nrows_in_fragment frag_offsets data_buffer index_buffer =
     (let nrows_to_keep = compact_nrows_to_keep nrows_in_fragment frag_offsets in
      case vacuum_varlen_rows nrows_in_fragment frag_offsets data_buffer (mem index_buffer) of
        None \<Rightarrow> None
      | Some (m, ia, nbytes_var_data_to_keep) \<Rightarrow>
          let data_buffer' =
                setUpdated (setSize (data_buffer\<lparr>mem := m,
                    encoder := setNumElems (encoder data_buffer) nrows_to_keep\<rparr>)
                  nbytes_var_data_to_keep)
          in if nrows_to_keep < length ia
             then Some (data_buffer',
                        setUpdated (setSize
                          (index_buffer\<lparr>mem := ia[nrows_to_keep := s32 (int (buf_size data_buffer'))]\<rparr>)
                          (nat (u64 (int sizeof_StringOffsetT
                                     * (if nrows_to_keep \<noteq> 0 then 1 + int nrows_to_keep else 0))))))
             else None)"

text \<open>
  The format of a variable-length column before the vacuum, as the specification gives
  it: \<open>offset[0..nrows]\<close> with \<open>offset[0] = 0\<close>, non-decreasing, and
  \<open>offset[nrows] = dataBuffer.size\<close>; the payload of row \<open>i\<close> is the slice
  \<open>[offset[i], offset[i + 1])\<close> of the data.
\<close>

definition varlen_wellformed :: "nat \<Rightarrow> byte Buffer \<Rightarrow> int list \<Rightarrow> bool" where
  "varlen_wellformed nrows data_buffer index_array =
     (nrows < length index_array \<and> index_array ! 0 = 0
      \<and> sorted (take (Suc nrows) index_array)
      \<and> index_array ! nrows = int (buf_size data_buffer)
      \<and> buf_size data_buffer \<le> length (mem data_buffer))"

definition payload :: "byte list \<Rightarrow> int list \<Rightarrow> nat \<Rightarrow> byte list" where
  "payload m index_array i =
     take (nat (index_array ! Suc i - index_array ! i)) (drop (nat (index_array ! i)) m)"

definition surviving_payloads :: "nat \<Rightarrow> nat list \<Rightarrow> byte list \<Rightarrow> int list \<Rightarrow> byte list" where
  "surviving_payloads nrows frag_offsets m index_array =
     concat (map (payload m index_array) (filter (\<lambda>i. i \<notin> set frag_offsets) [0..<nrows]))"

text \<open>
  The offsets the compacted column is to have: the surviving rows laid end to end, row
  \<open>i\<close> taking \<open>row_len i\<close> bytes, the first one at the given base.
\<close>

definition row_len :: "int list \<Rightarrow> nat \<Rightarrow> nat" where
  "row_len index_array i = nat (index_array ! Suc i - index_array ! i)"

fun offsets_from :: "int \<Rightarrow> nat list \<Rightarrow> int list" where
  "offsets_from base [] = []"
| "offsets_from base (l # ls) = base # offsets_from (base + int l) ls"

definition surviving_offsets :: "nat \<Rightarrow> nat list \<Rightarrow> int list \<Rightarrow> int list" where
  "surviving_offsets nrows frag_offsets index_array =
     offsets_from 0 (map (row_len index_array)
                         (filter (\<lambda>i. i \<notin> set frag_offsets) [0..<nrows]))"

section \<open>Catalog, fragments and the transaction roll\<close>

text \<open>
  How a call ends that does not return normally: a failed \<^verbatim>\<open>CHECK\<close>, a
  \<^verbatim>\<open>std::runtime_error\<close> with its message, the exception of the decimal overflow validator
  (its class is not among the sources), or undefined behaviour (an access outside a
  buffer, a null pointer, an integer overflow).
\<close>

datatype failure = CheckFailed | RuntimeError string | ValidatorThrew | UndefinedBehaviour

datatype MemoryLevel = DISK_LEVEL | CPU_LEVEL | GPU_LEVEL

text \<open>
  \<^verbatim>\<open>ScalarTargetValue\<close> is \<^verbatim>\<open>boost::variant<int64_t, double, float, NullableString>\<close>; a
  \<^verbatim>\<open>NullableString\<close> holds a string or nothing.
\<close>

datatype ScalarTargetValue =
  Int64Value int | DoubleValue rat | FloatValue rat | NullableStringValue "string option"

record ColumnDescriptor =
  cd_tableId :: int
  columnId :: int
  columnName :: string
  columnType :: SQLTypeInfo
  isDeletedCol :: bool
  isVirtualCol :: bool

text \<open>
  The members of \<^verbatim>\<open>InsertOrderFragmenter\<close> that the code reads: the shard number and the
  fragments. A \<^verbatim>\<open>FragmentInfo\<close> lives in the fragmenter's container and is referred to by
  its address (\<^verbatim>\<open>&fragment\<close> is half of a \<^verbatim>\<open>MetaDataKey\<close>); the model keeps the objects in a
  heap indexed by address, and the container as the list of the addresses. (An Isabelle
  name cannot end in an underscore: \<open>shard\<close> is \<^verbatim>\<open>shard_\<close>, \<open>fragmentInfoVec\<close> is
  \<^verbatim>\<open>fragmentInfoVec_\<close>.)
\<close>

record Fragmenter =
  shard :: int
  fragmentInfoVec :: "nat list"

record TableDescriptor =
  tableId :: int
  nColumns :: int
  persistenceLevel :: MemoryLevel
  fragmenter :: Fragmenter

record FragmentInfo =
  fragmentId :: int
  physicalNumTuples :: nat
  shadowNumTuples :: nat
  chunkMetadataMap :: "int \<rightharpoonup> ChunkMetadata"
  shadowChunkMetadataMap :: "int \<rightharpoonup> ChunkMetadata"

text \<open>
  A string dictionary is kept as the list of its strings; what \<^verbatim>\<open>getOrAdd\<close> and
  \<^verbatim>\<open>getString\<close> do with it is a parameter (see \<open>Externals\<close>). A \<^verbatim>\<open>DictDescriptor\<close> holds the
  address of its dictionary, or null.
\<close>

type_synonym StringDictionary = "string list"

record DictDescriptor =
  stringDict :: "nat option"

text \<open>
  The catalog, by the operations the code calls on it. A pointer to a
  \<^verbatim>\<open>TableDescriptor\<close> is modelled by the id of the table it describes (the catalog owns
  one descriptor per table), the null pointer by \<open>None\<close>.
\<close>

record Catalog =
  currentDB_dbId :: int
  getMetadataForTable :: "int \<Rightarrow> TableDescriptor option"
  getMetadataForTableByName :: "string \<Rightarrow> TableDescriptor option"
  getMetadataForColumn :: "int \<Rightarrow> int \<Rightarrow> ColumnDescriptor option"
  getMetadataForColumnByName :: "int \<Rightarrow> string \<Rightarrow> ColumnDescriptor option"
  getMetadataForDict :: "int \<Rightarrow> DictDescriptor option"
  getLogicalTableId :: "int \<Rightarrow> int"

type_synonym ChunkKey = "int list"

type_synonym MetaDataKey = "int option \<times> nat"

text \<open>
  A \<^verbatim>\<open>Chunk\<close> object: its own address (the key of \<^verbatim>\<open>dirtyChunks\<close>), its column
  descriptor, and the buffers it points to, which belong to the buffer manager and are
  found there by memory level and chunk key.
\<close>

record Chunk =
  chunk_ptr :: nat
  column_desc :: ColumnDescriptor
  chunk_level :: MemoryLevel
  chunk_key :: ChunkKey

text \<open>
  \<^verbatim>\<open>UpdelRoll\<close>. \<^verbatim>\<open>chunkMetadata\<close> and \<^verbatim>\<open>dirtyChunkeys\<close> are iterated by \<^verbatim>\<open>commitUpdate\<close>,
  so they are kept as lists in the order of their keys (\<open>omap_put\<close>, \<open>oset_insert\<close>);
  \<^verbatim>\<open>numTuples\<close> and \<^verbatim>\<open>dirtyChunks\<close> are only looked up. The mutex is not modelled: the
  model runs the workers one after the other.
\<close>

record UpdelRoll =
  catalog :: "Catalog option"
  logicalTableId :: int
  memoryLevel :: MemoryLevel
  dirtyChunks :: "nat \<rightharpoonup> Chunk"
  dirtyChunkeys :: "ChunkKey list"
  chunkMetadata :: "(MetaDataKey \<times> (int \<rightharpoonup> ChunkMetadata)) list"
  numTuples :: "MetaDataKey \<rightharpoonup> nat"

text \<open>
  The calls that leave the subsystem, in the order they are made. Two entries are not
  calls but marks, kept to state when a step happens relative to the calls:
  \<open>FragmentPublished\<close> records the assignments of lines 438 to 445 to the fragment of a
  key (table pointer and fragment), \<open>DirtyChunksCleared\<close> records \<^verbatim>\<open>dirtyChunks.clear()\<close>
  at line 780.
\<close>

datatype event =
  Checkpoint int
  | DeleteChunksWithPrefix ChunkKey MemoryLevel
  | WriteLock_fragmentInfoMutex "int option"
  | WriteUnlock_fragmentInfoMutex "int option"
  | FragmentPublished "int option" nat
  | DirtyChunksCleared

record world =
  fragment_heap :: "nat \<Rightarrow> FragmentInfo"
  data_buffers :: "MemoryLevel \<Rightarrow> ChunkKey \<Rightarrow> byte Buffer"
  index_buffers :: "MemoryLevel \<Rightarrow> ChunkKey \<Rightarrow> int Buffer option"
  dict_heap :: "nat \<Rightarrow> StringDictionary"
  next_chunk_ptr :: nat
  updel_roll :: UpdelRoll
  trace :: "event list"

text \<open>
  Helpers of other files that the code calls and that are not among the sources
  (\<^verbatim>\<open>Shared/TypedDataAccessors.h\<close>, \<^verbatim>\<open>Shared/thread_count.h\<close>, the string dictionary, the
  decimal overflow validator, the C library): they are parameters of the model. The
  \<open>put\<close> functions give the bytes stored at the target address, the \<open>get\<close> functions
  read the bytes from the address on and return \<open>(is_null, value)\<close>. \<open>double_of_int64\<close>
  and \<open>int64_of_double\<close> are the conversions C++ inserts between \<^verbatim>\<open>int64_t\<close> and
  \<^verbatim>\<open>double\<close>, \<open>double_mult\<close> the rounded product.
\<close>

record Externals =
  cpu_threads :: nat
  validate :: "SQLTypeInfo \<Rightarrow> int \<Rightarrow> bool"
  put_scalar_int64 :: "SQLTypeInfo \<Rightarrow> int \<Rightarrow> SQLTypeInfo option \<Rightarrow> byte list"
  put_scalar_double :: "SQLTypeInfo \<Rightarrow> rat \<Rightarrow> byte list"
  put_scalar_float :: "SQLTypeInfo \<Rightarrow> rat \<Rightarrow> byte list"
  put_scalar_int32 :: "SQLTypeInfo \<Rightarrow> int \<Rightarrow> byte list"
  put_null :: "SQLTypeInfo \<Rightarrow> byte list"
  get_scalar_int64 :: "SQLTypeInfo \<Rightarrow> byte list \<Rightarrow> bool \<times> int"
  get_scalar_double :: "SQLTypeInfo \<Rightarrow> byte list \<Rightarrow> bool \<times> rat"
  decimal_to_double :: "SQLTypeInfo \<Rightarrow> int \<Rightarrow> rat"
  round_double :: "rat \<Rightarrow> rat"
  double_of_int64 :: "int \<Rightarrow> rat"
  int64_of_double :: "rat \<Rightarrow> int"
  double_mult :: "rat \<Rightarrow> rat \<Rightarrow> rat"
  pow10 :: "int \<Rightarrow> rat"
  atof :: "string \<Rightarrow> rat"
  StringToDatum_timeval :: "string \<Rightarrow> SQLTypeInfo \<Rightarrow> int"
  getOrAdd :: "StringDictionary \<Rightarrow> string \<Rightarrow> int \<times> StringDictionary"
  getString :: "StringDictionary \<Rightarrow> int \<Rightarrow> string"

text \<open>
  \<^verbatim>\<open>std::map::operator[]\<close> and \<^verbatim>\<open>std::set::insert\<close> on the two containers that are
  iterated: the entry goes to its place in the order of the keys. A pair of pointers is
  ordered by its components, a \<^verbatim>\<open>ChunkKey\<close> (a vector of ints) lexicographically.
\<close>

fun chunkkey_less :: "int list \<Rightarrow> int list \<Rightarrow> bool" where
  "chunkkey_less [] [] = False"
| "chunkkey_less [] (y # ys) = True"
| "chunkkey_less (x # xs) [] = False"
| "chunkkey_less (x # xs) (y # ys) = (x < y \<or> (x = y \<and> chunkkey_less xs ys))"

fun oset_insert :: "ChunkKey \<Rightarrow> ChunkKey list \<Rightarrow> ChunkKey list" where
  "oset_insert k [] = [k]"
| "oset_insert k (x # xs) =
     (if k = x then x # xs
      else if chunkkey_less k x then k # x # xs
      else x # oset_insert k xs)"

definition metakey_less :: "MetaDataKey \<Rightarrow> MetaDataKey \<Rightarrow> bool" where
  "metakey_less a b =
     (case (fst a, fst b) of
        (None, None) \<Rightarrow> snd a < snd b
      | (None, Some y) \<Rightarrow> True
      | (Some x, None) \<Rightarrow> False
      | (Some x, Some y) \<Rightarrow> x < y \<or> (x = y \<and> snd a < snd b))"

fun omap_put :: "MetaDataKey \<Rightarrow> 'v \<Rightarrow> (MetaDataKey \<times> 'v) list \<Rightarrow> (MetaDataKey \<times> 'v) list" where
  "omap_put k v [] = [(k, v)]"
| "omap_put k v ((k', v') # xs) =
     (if k = k' then (k, v) # xs
      else if metakey_less k k' then (k, v) # (k', v') # xs
      else (k', v') # omap_put k v xs)"

text \<open>
  \<^verbatim>\<open>Chunk::getChunk\<close>: a new \<^verbatim>\<open>Chunk\<close> object for the buffers of the key at the level.
  \<^verbatim>\<open>get_buffer\<close> and \<^verbatim>\<open>get_index_buf\<close> follow its pointers.
\<close>

definition getChunk :: "ColumnDescriptor \<Rightarrow> ChunkKey \<Rightarrow> MemoryLevel \<Rightarrow> world \<Rightarrow> Chunk \<times> world" where
  "getChunk cd key memory_level w =
     (\<lparr>chunk_ptr = next_chunk_ptr w, column_desc = cd, chunk_level = memory_level,
       chunk_key = key\<rparr>,
      w\<lparr>next_chunk_ptr := Suc (next_chunk_ptr w)\<rparr>)"

definition get_buffer :: "world \<Rightarrow> Chunk \<Rightarrow> byte Buffer" where
  "get_buffer w chunk = data_buffers w (chunk_level chunk) (chunk_key chunk)"

definition get_index_buf :: "world \<Rightarrow> Chunk \<Rightarrow> int Buffer option" where
  "get_index_buf w chunk = index_buffers w (chunk_level chunk) (chunk_key chunk)"

definition set_buffer :: "Chunk \<Rightarrow> byte Buffer \<Rightarrow> world \<Rightarrow> world" where
  "set_buffer chunk b w =
     w\<lparr>data_buffers := (data_buffers w)
          (chunk_level chunk := (data_buffers w (chunk_level chunk))(chunk_key chunk := b))\<rparr>"

definition set_index_buf :: "Chunk \<Rightarrow> int Buffer \<Rightarrow> world \<Rightarrow> world" where
  "set_index_buf chunk b w =
     w\<lparr>index_buffers := (index_buffers w)
          (chunk_level chunk := (index_buffers w (chunk_level chunk))(chunk_key chunk := Some b))\<rparr>"

text \<open>
  \<^verbatim>\<open>getFragmentInfoFromId\<close>: the first fragment of the container with the id;
  \<^verbatim>\<open>CHECK\<close> that there is one.
\<close>

definition getFragmentInfoFromId :: "Fragmenter \<Rightarrow> world \<Rightarrow> int \<Rightarrow> failure + nat" where
  "getFragmentInfoFromId frg w fragment_id =
     (case filter (\<lambda>p. fragmentId (fragment_heap w p) = fragment_id) (fragmentInfoVec frg) of
        [] \<Rightarrow> Inl CheckFailed
      | p # ps \<Rightarrow> Inr p)"

section \<open>Per-worker statistics\<close>

text \<open>
  The five vectors \<^verbatim>\<open>has_null_per_thread\<close>, \<^verbatim>\<open>max_double_per_thread\<close>, ... that
  \<^verbatim>\<open>updateColumn\<close> (one entry per worker) and \<^verbatim>\<open>compactRows\<close> (one entry per column) fill.
  \<open>folded\<close> is not a variable of the program: it is the history of the values handed to
  \<^verbatim>\<open>set_minmax\<close> and of the writes of a null, kept to state what the statistics cover.
\<close>

datatype fold_event = FoldedInt64 int | FoldedDouble rat | WroteNull

record thread_stats =
  has_null_per_thread :: "bool list"
  max_double_per_thread :: "rat list"
  min_double_per_thread :: "rat list"
  max_int64t_per_thread :: "int list"
  min_int64t_per_thread :: "int list"
  folded :: "fold_event list"

text \<open>
  Modelled from the spec: \<^verbatim>\<open>set_minmax(min, max, val)\<close> of
  \<^verbatim>\<open>Shared/TypedDataAccessors.h\<close> (not among the sources) folds a value into a running
  minimum and maximum.
\<close>

definition set_minmax :: "'a::linorder \<Rightarrow> 'a \<Rightarrow> 'a \<Rightarrow> 'a \<times> 'a" where
  "set_minmax mn mx v = (if v < mn then v else mn, if v > mx then v else mx)"

definition fold_int64 :: "nat \<Rightarrow> int \<Rightarrow> thread_stats \<Rightarrow> thread_stats" where
  "fold_int64 c v ts =
     (case set_minmax (min_int64t_per_thread ts ! c) (max_int64t_per_thread ts ! c) v of
        (mn, mx) \<Rightarrow>
          ts\<lparr>min_int64t_per_thread := (min_int64t_per_thread ts)[c := mn],
             max_int64t_per_thread := (max_int64t_per_thread ts)[c := mx],
             folded := folded ts @ [FoldedInt64 v]\<rparr>)"

definition fold_double :: "nat \<Rightarrow> rat \<Rightarrow> thread_stats \<Rightarrow> thread_stats" where
  "fold_double c v ts =
     (case set_minmax (min_double_per_thread ts ! c) (max_double_per_thread ts ! c) v of
        (mn, mx) \<Rightarrow>
          ts\<lparr>min_double_per_thread := (min_double_per_thread ts)[c := mn],
             max_double_per_thread := (max_double_per_thread ts)[c := mx],
             folded := folded ts @ [FoldedDouble v]\<rparr>)"

text \<open>
  The initial vectors of \<^verbatim>\<open>updateColumn\<close> (lines 134 to 138) and of \<^verbatim>\<open>compactRows\<close>
  (lines 642 to 646). The latter takes the limits of \<^verbatim>\<open>uint64_t\<close> for the two
  \<^verbatim>\<open>int64_t\<close> vectors; the values are converted on initialisation.
\<close>

definition updateColumn_init :: "nat \<Rightarrow> thread_stats" where
  "updateColumn_init ncore =
     \<lparr>has_null_per_thread = replicate ncore False,
      max_double_per_thread = replicate ncore DBL_MIN,
      min_double_per_thread = replicate ncore DBL_MAX,
      max_int64t_per_thread = replicate ncore INT64_MIN,
      min_int64t_per_thread = replicate ncore INT64_MAX,
      folded = []\<rparr>"

definition compactRows_init :: "nat \<Rightarrow> thread_stats" where
  "compactRows_init ncol =
     \<lparr>has_null_per_thread = replicate ncol False,
      max_double_per_thread = replicate ncol DBL_MIN,
      min_double_per_thread = replicate ncol DBL_MAX,
      max_int64t_per_thread = replicate ncol (s64 0),
      min_int64t_per_thread = replicate ncol (s64 UINT64_MAX),
      folded = []\<rparr>"

text \<open>
  The sliding window of \<^verbatim>\<open>std::async\<close> tasks: every task is started, and
  \<^verbatim>\<open>wait_cleanup_threads\<close> rethrows the exception of the first future, in the order the
  tasks were started, that holds one. The model runs the tasks in that order; a task
  that fails keeps what it had done, the later tasks still run, and the first failure is
  the one reported. \<open>run_threads\<close> is the loop
  \<^verbatim>\<open>for (rbegin = 0, c = 0; rbegin < nrow; ++c, rbegin += segsz)\<close> of \<^verbatim>\<open>updateColumn\<close>,
  \<open>run_columns\<close> the loop over the chunks of \<^verbatim>\<open>compactRows\<close>.
\<close>

definition first_failure :: "failure option \<Rightarrow> failure option \<Rightarrow> failure option" where
  "first_failure a b = (case a of None \<Rightarrow> b | Some e \<Rightarrow> Some e)"

function run_threads ::
  "(nat \<Rightarrow> nat \<Rightarrow> 's \<Rightarrow> failure option \<times> 's) \<Rightarrow> nat \<Rightarrow> nat \<Rightarrow> nat \<Rightarrow> nat
   \<Rightarrow> failure option \<times> 's \<Rightarrow> failure option \<times> 's" where
  "run_threads task nrow segsz rbegin c acc =
     (if rbegin < nrow \<and> 0 < segsz
      then (case task c rbegin (snd acc) of
              (e, st') \<Rightarrow>
                run_threads task nrow segsz (rbegin + segsz) (Suc c) (first_failure (fst acc) e, st'))
      else acc)"
  by pat_completeness auto
termination
  by (relation "measure (\<lambda>(task, nrow, segsz, rbegin, c, acc). nrow - rbegin)") auto

fun run_columns ::
  "(nat \<Rightarrow> 's \<Rightarrow> failure option \<times> 's) \<Rightarrow> nat list \<Rightarrow> failure option \<times> 's
   \<Rightarrow> failure option \<times> 's" where
  "run_columns task [] acc = acc"
| "run_columns task (ci # rest) acc =
     (case task ci (snd acc) of
        (e, st') \<Rightarrow> run_columns task rest (first_failure (fst acc) e, st'))"

section \<open>Shadow metadata\<close>

text \<open>
  \<^verbatim>\<open>std::map::operator[]\<close> on a per-fragment metadata map value-initialises a missing
  entry.
\<close>

definition zero_metadata :: ChunkMetadata where
  "zero_metadata =
     \<lparr>numBytes = 0, numElements = 0,
      chunkStats = \<lparr>has_nulls = False, min_int = 0, max_int = 0, min_fp = 0, max_fp = 0\<rparr>\<rparr>"

definition metadata_at :: "(int \<rightharpoonup> ChunkMetadata) \<Rightarrow> int \<Rightarrow> ChunkMetadata" where
  "metadata_at m col = (case m col of None \<Rightarrow> zero_metadata | Some md \<Rightarrow> md)"

definition table_ptr :: "Catalog \<Rightarrow> int \<Rightarrow> int option" where
  "table_ptr cat tid = map_option tableId (getMetadataForTable cat tid)"

text \<open>
  \<open>shadow_of\<close> is \<^verbatim>\<open>updel_roll.chunkMetadata[key]\<close> after the test
  \<^verbatim>\<open>if (0 == updel_roll.chunkMetadata.count(key))\<close> has installed the snapshot of the
  fragment's physical metadata.
\<close>

definition install_snapshot :: "MetaDataKey \<Rightarrow> world \<Rightarrow> world" where
  "install_snapshot key w =
     (if map_of (chunkMetadata (updel_roll w)) key = None
      then w\<lparr>updel_roll := (updel_roll w)\<lparr>chunkMetadata :=
             omap_put key (chunkMetadataMap (fragment_heap w (snd key)))
                      (chunkMetadata (updel_roll w))\<rparr>\<rparr>
      else w)"

definition shadow_of :: "world \<Rightarrow> MetaDataKey \<Rightarrow> (int \<rightharpoonup> ChunkMetadata)" where
  "shadow_of w key =
     (case map_of (chunkMetadata (updel_roll w)) key of None \<Rightarrow> Map.empty | Some m \<Rightarrow> m)"

definition set_shadow :: "MetaDataKey \<Rightarrow> (int \<rightharpoonup> ChunkMetadata) \<Rightarrow> world \<Rightarrow> world" where
  "set_shadow key m w =
     w\<lparr>updel_roll := (updel_roll w)\<lparr>chunkMetadata := omap_put key m (chunkMetadata (updel_roll w))\<rparr>\<rparr>"

definition mark_dirty :: "Chunk \<Rightarrow> world \<Rightarrow> world" where
  "mark_dirty chunk w =
     (if dirtyChunks (updel_roll w) (chunk_ptr chunk) = None
      then w\<lparr>updel_roll := (updel_roll w)\<lparr>dirtyChunks :=
             (dirtyChunks (updel_roll w))(chunk_ptr chunk \<mapsto> chunk)\<rparr>\<rparr>
      else w)"

text \<open>\<^verbatim>\<open>InsertOrderFragmenter::updateColumnMetadata\<close>, lines 387 to 432.\<close>

definition updateColumnMetadata ::
  "Externals \<Rightarrow> ColumnDescriptor \<Rightarrow> nat \<Rightarrow> Chunk \<Rightarrow> bool \<Rightarrow> rat \<Rightarrow> rat \<Rightarrow> int \<Rightarrow> int
   \<Rightarrow> SQLTypeInfo \<Rightarrow> world \<Rightarrow> failure option \<times> world" where
  "updateColumnMetadata X cd fragment chunk has_null_per_chunk max_double_per_chunk
     min_double_per_chunk max_int64t_per_chunk min_int64t_per_chunk rhs_type w =
     (case catalog (updel_roll w) of
        None \<Rightarrow> (Some UndefinedBehaviour, w)
      | Some rcat \<Rightarrow>
          let key = (table_ptr rcat (cd_tableId cd), fragment);
              w1 = install_snapshot key w;
              w2 = (if numTuples (updel_roll w1) key = None
                    then w1\<lparr>updel_roll := (updel_roll w1)\<lparr>numTuples :=
                           (numTuples (updel_roll w1))
                             (key \<mapsto> shadowNumTuples (fragment_heap w1 fragment))\<rparr>\<rparr>
                    else w1);
              buffer = get_buffer w2 chunk;
              lhs_type = columnType cd;
              e = encoder buffer;
              e' = (if is_integral lhs_type \<or> (is_decimal lhs_type \<and> is_decimal rhs_type)
                    then updateStats_int64 (updateStats_int64 e max_int64t_per_chunk has_null_per_chunk)
                           min_int64t_per_chunk has_null_per_chunk
                    else if is_fp lhs_type
                    then updateStats_double (updateStats_double e max_double_per_chunk has_null_per_chunk)
                           min_double_per_chunk has_null_per_chunk
                    else if is_decimal lhs_type
                    then updateStats_int64
                           (updateStats_int64 e
                              (int64_of_double X (double_mult X max_double_per_chunk
                                                    (pow10 X (get_scale lhs_type))))
                              has_null_per_chunk)
                           (int64_of_double X (double_mult X min_double_per_chunk
                                                 (pow10 X (get_scale lhs_type))))
                           has_null_per_chunk
                    else if \<not> is_array lhs_type \<and> \<not> is_geometry lhs_type
                            \<and> \<not> (is_string lhs_type \<and> get_compression lhs_type \<noteq> kENCODING_DICT)
                    then updateStats_int64 (updateStats_int64 e max_int64t_per_chunk has_null_per_chunk)
                           min_int64t_per_chunk has_null_per_chunk
                    else e);
              buffer' = buffer\<lparr>encoder := e'\<rparr>;
              w3 = set_buffer chunk buffer' w2
          in (None, set_shadow key ((shadow_of w3 key)(columnId cd \<mapsto> getMetadata buffer')) w3))"

section \<open>compactRows\<close>

text \<open>
  \<^verbatim>\<open>set_chunk_stats<T>\<close> (lines 503 to 517), for \<^verbatim>\<open>T = int64_t\<close> and \<^verbatim>\<open>T = double\<close>;
  \<open>data_addr\<close> stands for the bytes from the address on.
\<close>

definition set_chunk_stats_int64 ::
  "Externals \<Rightarrow> SQLTypeInfo \<Rightarrow> byte list \<Rightarrow> nat \<Rightarrow> thread_stats \<Rightarrow> thread_stats" where
  "set_chunk_stats_int64 X col_type data_addr ci ts =
     (let can_be_null = \<not> get_notnull col_type in
      case get_scalar_int64 X col_type data_addr of
        (is_null, v) \<Rightarrow>
          if is_null
          then ts\<lparr>has_null_per_thread := (has_null_per_thread ts)
                    [ci := (has_null_per_thread ts ! ci \<or> (can_be_null \<and> is_null))]\<rparr>
          else fold_int64 ci v ts)"

definition set_chunk_stats_double ::
  "Externals \<Rightarrow> SQLTypeInfo \<Rightarrow> byte list \<Rightarrow> nat \<Rightarrow> thread_stats \<Rightarrow> thread_stats" where
  "set_chunk_stats_double X col_type data_addr ci ts =
     (let can_be_null = \<not> get_notnull col_type in
      case get_scalar_double X col_type data_addr of
        (is_null, v) \<Rightarrow>
          if is_null
          then ts\<lparr>has_null_per_thread := (has_null_per_thread ts)
                    [ci := (has_null_per_thread ts ! ci \<or> (can_be_null \<and> is_null))]\<rparr>
          else fold_double ci v ts)"

text \<open>\<^verbatim>\<open>set_chunk_metadata\<close>, lines 519 to 538.\<close>

definition set_chunk_metadata :: "Catalog \<Rightarrow> nat \<Rightarrow> Chunk \<Rightarrow> nat \<Rightarrow> world \<Rightarrow> world" where
  "set_chunk_metadata cat fragment chunk nrows_to_keep w =
     (let cd = column_desc chunk;
          data_buffer = get_buffer w chunk;
          key = (table_ptr cat (cd_tableId cd), fragment);
          w1 = install_snapshot key w;
          md = metadata_at (shadow_of w1 key) (columnId cd);
          w2 = set_shadow key ((shadow_of w1 key)
                 (columnId cd \<mapsto> md\<lparr>numElements := nrows_to_keep,
                                     numBytes := buf_size data_buffer\<rparr>)) w1
      in mark_dirty chunk w2)"

text \<open>
  The statistics loop of the \<^verbatim>\<open>fixlen_vacuum\<close> closure, lines 683 to 705:
  \<^verbatim>\<open>for (irow = 0; irow < nrows_to_keep; ++irow, daddr += element_size)\<close>. The first
  numeric argument counts the rounds left, \<open>daddr\<close> is the byte offset of the pointer
  \<^verbatim>\<open>daddr\<close> from \<^verbatim>\<open>data_addr\<close>. The array branch passes \<^verbatim>\<open>daddr\<close>; the two calls of
  \<^verbatim>\<open>set_chunk_stats\<close> pass \<^verbatim>\<open>data_addr\<close>.
\<close>

fun fixlen_stats_loop ::
  "Externals \<Rightarrow> SQLTypeInfo \<Rightarrow> Chunk \<Rightarrow> nat \<Rightarrow> nat \<Rightarrow> nat \<Rightarrow> nat
   \<Rightarrow> world \<times> thread_stats \<Rightarrow> failure option \<times> world \<times> thread_stats" where
  "fixlen_stats_loop X col_type chunk element_size ci 0 daddr st = (None, st)"
| "fixlen_stats_loop X col_type chunk element_size ci (Suc n) daddr st =
     (let w = fst st; ts = snd st; data_buffer = get_buffer w chunk in
      if is_fixlen_array col_type then
        (if is_FixedLengthArrayNoneEncoder (encoder data_buffer)
         then fixlen_stats_loop X col_type chunk element_size ci n (daddr + element_size)
                (set_buffer chunk
                   (data_buffer\<lparr>encoder := updateMetadata (encoder data_buffer) daddr\<rparr>) w, ts)
         else (Some CheckFailed, st))
      else if is_fp col_type then
        fixlen_stats_loop X col_type chunk element_size ci n (daddr + element_size)
          (w, set_chunk_stats_double X col_type (mem data_buffer) ci ts)
      else
        fixlen_stats_loop X col_type chunk element_size ci n (daddr + element_size)
          (w, set_chunk_stats_int64 X col_type (mem data_buffer) ci ts))"

definition vacuum_element_size :: "SQLTypeInfo \<Rightarrow> nat" where
  "vacuum_element_size col_type =
     (if is_fixlen_array col_type then get_size col_type else get_element_size col_type)"

text \<open>The closure \<^verbatim>\<open>fixlen_vacuum\<close>, lines 665 to 706.\<close>

definition fixlen_vacuum ::
  "Externals \<Rightarrow> Catalog \<Rightarrow> nat \<Rightarrow> Chunk \<Rightarrow> nat list \<Rightarrow> nat \<Rightarrow> nat
   \<Rightarrow> world \<times> thread_stats \<Rightarrow> failure option \<times> world \<times> thread_stats" where
  "fixlen_vacuum X cat fragment chunk frag_offsets nrows_to_keep ci st =
     (let w = fst st; ts = snd st;
          col_type = columnType (column_desc chunk);
          data_buffer = get_buffer w chunk in
      case vacuum_fixlen_rows (vacuum_element_size col_type)
             (physicalNumTuples (fragment_heap w fragment)) frag_offsets (mem data_buffer) of
        None \<Rightarrow> (Some UndefinedBehaviour, st)
      | Some (m, nbytes_fix_data_to_keep) \<Rightarrow>
          let data_buffer' =
                setUpdated (setSize (data_buffer\<lparr>mem := m,
                    encoder := setNumElems (encoder data_buffer) nrows_to_keep\<rparr>)
                  nbytes_fix_data_to_keep);
              w1 = set_chunk_metadata cat fragment chunk nrows_to_keep
                     (set_buffer chunk data_buffer' w)
          in fixlen_stats_loop X col_type chunk (vacuum_element_size col_type) ci
               nrows_to_keep 0 (w1, ts))"

text \<open>
  The closure \<^verbatim>\<open>varlen_vacuum\<close>, lines 708 to 730. Without an index buffer
  \<^verbatim>\<open>index_array\<close> is null and is dereferenced.
\<close>

definition varlen_vacuum ::
  "Catalog \<Rightarrow> nat \<Rightarrow> Chunk \<Rightarrow> nat list \<Rightarrow> nat \<Rightarrow> nat
   \<Rightarrow> world \<times> thread_stats \<Rightarrow> failure option \<times> world \<times> thread_stats" where
  "varlen_vacuum cat fragment chunk frag_offsets nrows_to_keep ci st =
     (let w = fst st in
      case get_index_buf w chunk of
        None \<Rightarrow> (Some UndefinedBehaviour, st)
      | Some index_buffer \<Rightarrow>
          (case varlen_vacuum_buffers (physicalNumTuples (fragment_heap w fragment)) frag_offsets
                  (get_buffer w chunk) index_buffer of
             None \<Rightarrow> (Some UndefinedBehaviour, st)
           | Some (data_buffer', index_buffer') \<Rightarrow>
               (None,
                set_chunk_metadata cat fragment chunk nrows_to_keep
                  (set_index_buf chunk index_buffer' (set_buffer chunk data_buffer' w)),
                snd st)))"

text \<open>
  \<^verbatim>\<open>getChunksForAllColumns\<close>, lines 458 to 484:
  \<^verbatim>\<open>for (int col_id = 1, ncol = 0; ncol < td->nColumns; ++col_id)\<close>. The loop ends when
  \<^verbatim>\<open>nColumns\<close> columns have been found; if the catalog has fewer, \<^verbatim>\<open>col_id\<close> overflows.
\<close>

function getChunksForAllColumns_loop ::
  "Catalog \<Rightarrow> TableDescriptor \<Rightarrow> nat \<Rightarrow> MemoryLevel \<Rightarrow> int \<Rightarrow> int \<Rightarrow> world \<times> Chunk list
   \<Rightarrow> failure option \<times> world \<times> Chunk list" where
  "getChunksForAllColumns_loop cat td fragment memory_level col_id ncol acc =
     (if ncol < nColumns td then
        (if 2 ^ 31 \<le> col_id then (Some UndefinedBehaviour, acc)
         else
           (case getMetadataForColumn cat (tableId td) col_id of
              None \<Rightarrow>
                getChunksForAllColumns_loop cat td fragment memory_level (col_id + 1) ncol acc
            | Some cd \<Rightarrow>
                if \<not> isVirtualCol cd then
                  (case chunkMetadataMap (fragment_heap (fst acc) fragment) col_id of
                     None \<Rightarrow> (Some CheckFailed, acc)
                   | Some chunk_meta \<Rightarrow>
                       (case getChunk cd
                               [currentDB_dbId cat, tableId td, col_id,
                                fragmentId (fragment_heap (fst acc) fragment)]
                               memory_level (fst acc) of
                          (chunk, w') \<Rightarrow>
                            getChunksForAllColumns_loop cat td fragment memory_level
                              (col_id + 1) (ncol + 1) (w', snd acc @ [chunk])))
                else
                  getChunksForAllColumns_loop cat td fragment memory_level
                    (col_id + 1) (ncol + 1) acc))
      else (None, acc))"
  by pat_completeness auto
termination
  by (relation "measure (\<lambda>(cat, td, fragment, memory_level, col_id, ncol, acc). nat (2 ^ 31 - col_id))")
     auto

definition getChunksForAllColumns ::
  "Catalog \<Rightarrow> TableDescriptor \<Rightarrow> nat \<Rightarrow> MemoryLevel \<Rightarrow> world
   \<Rightarrow> failure option \<times> world \<times> Chunk list" where
  "getChunksForAllColumns cat td fragment memory_level w =
     getChunksForAllColumns_loop cat td fragment memory_level 1 0 (w, [])"

text \<open>
  \<^verbatim>\<open>InsertOrderFragmenter::compactRows\<close>, lines 632 to 762. \<open>fcat\<close> is the fragmenter's
  own \<^verbatim>\<open>catalog_\<close>, which \<^verbatim>\<open>getChunksForAllColumns\<close> uses; \<open>cat\<close> is the argument.
\<close>

fun compactRows_metadata ::
  "Externals \<Rightarrow> nat \<Rightarrow> thread_stats \<Rightarrow> (nat \<times> Chunk) list \<Rightarrow> world \<Rightarrow> failure option \<times> world" where
  "compactRows_metadata X fragment ts [] w = (None, w)"
| "compactRows_metadata X fragment ts ((ci, chunk) # rest) w =
     (let cd = column_desc chunk in
      if \<not> is_fixlen_array (columnType cd) then
        (case updateColumnMetadata X cd fragment chunk
                (has_null_per_thread ts ! ci) (max_double_per_thread ts ! ci)
                (min_double_per_thread ts ! ci) (max_int64t_per_thread ts ! ci)
                (min_int64t_per_thread ts ! ci) (columnType cd) w of
           (Some e, w') \<Rightarrow> (Some e, w')
         | (None, w') \<Rightarrow> compactRows_metadata X fragment ts rest w')
      else compactRows_metadata X fragment ts rest w)"

definition compactRows ::
  "Externals \<Rightarrow> Fragmenter \<Rightarrow> Catalog \<Rightarrow> Catalog \<Rightarrow> TableDescriptor \<Rightarrow> int \<Rightarrow> nat list
   \<Rightarrow> MemoryLevel \<Rightarrow> world \<Rightarrow> failure option \<times> world" where
  "compactRows X frg fcat cat td fragment_id frag_offsets memory_level w =
     (case getFragmentInfoFromId frg w fragment_id of
        Inl e \<Rightarrow> (Some e, w)
      | Inr fragment \<Rightarrow>
          (case getChunksForAllColumns fcat td fragment memory_level w of
             (Some e, w1, chunks) \<Rightarrow> (Some e, w1)
           | (None, w1, chunks) \<Rightarrow>
               let ncol = length chunks;
                   nrows_in_fragment = physicalNumTuples (fragment_heap w1 fragment);
                   nrows_to_keep = compact_nrows_to_keep nrows_in_fragment frag_offsets
               in (case run_columns
                          (\<lambda>ci st.
                             if is_varlen_indeed (columnType (column_desc (chunks ! ci)))
                             then varlen_vacuum cat fragment (chunks ! ci) frag_offsets
                                    nrows_to_keep ci st
                             else fixlen_vacuum X cat fragment (chunks ! ci) frag_offsets
                                    nrows_to_keep ci st)
                          [0..<ncol] (None, w1, compactRows_init ncol) of
                     (Some e, w2, ts) \<Rightarrow> (Some e, w2)
                   | (None, w2, ts) \<Rightarrow>
                       compactRows_metadata X fragment ts (zip [0..<ncol] chunks)
                         (w2\<lparr>updel_roll := (updel_roll w2)\<lparr>numTuples :=
                               (numTuples (updel_roll w2))
                                 ((Some (tableId td), fragment) \<mapsto> nrows_to_keep)\<rparr>\<rparr>))))"

section \<open>updateColumn\<close>

text \<open>\<^verbatim>\<open>std::to_string\<close> on an integer.\<close>

function digits :: "nat \<Rightarrow> string" where
  "digits n =
     (if n < 10 then [''0123456789'' ! n]
      else digits (n div 10) @ [''0123456789'' ! (n mod 10)])"
  by pat_completeness auto
termination
  by (relation "measure id") auto

definition to_string :: "int \<Rightarrow> string" where
  "to_string i = (if i < 0 then CHR ''-'' # digits (nat (- i)) else digits (nat i))"

text \<open>The message of the exception thrown at lines 244 to 249.\<close>

definition overflow_message :: "int \<Rightarrow> SQLTypeInfo \<Rightarrow> SQLTypeInfo \<Rightarrow> string" where
  "overflow_message v rhs_type lhs_type =
     ''Data conversion overflow on '' @ to_string v @ '' from DECIMAL(''
     @ to_string (get_dimension rhs_type) @ '', '' @ to_string (get_scale rhs_type)
     @ '') to ('' @ to_string (get_dimension lhs_type) @ '', ''
     @ to_string (get_scale lhs_type) @ '')''"

text \<open>
  A typed accessor writes its bytes at \<^verbatim>\<open>data_ptr\<close>, given as the byte offset from
  \<^verbatim>\<open>dbuf_addr\<close>; a write that leaves the memory is undefined behaviour.
\<close>

definition poke :: "'a list \<Rightarrow> nat \<Rightarrow> 'a list \<Rightarrow> 'a list option" where
  "poke m off bs =
     (if off + length bs \<le> length m
      then Some (take off m @ bs @ drop (off + length bs) m)
      else None)"

definition put_at :: "Chunk \<Rightarrow> nat \<Rightarrow> byte list \<Rightarrow> world \<Rightarrow> world option" where
  "put_at chunk data_ptr bs w =
     (case poke (mem (get_buffer w chunk)) data_ptr bs of
        None \<Rightarrow> None
      | Some m \<Rightarrow> Some (set_buffer chunk ((get_buffer w chunk)\<lparr>mem := m\<rparr>) w))"

definition bytes_from :: "world \<Rightarrow> Chunk \<Rightarrow> nat \<Rightarrow> byte list" where
  "bytes_from w chunk data_ptr = drop data_ptr (mem (get_buffer w chunk))"

text \<open>
  The body of the loop over the rows of one worker, lines 195 to 340, by the alternative
  of the right-hand side. \<^verbatim>\<open>ENABLE_STRING_CONVERSION_AT_STORAGE_LAYER\<close> is not defined.
  The state is the world and the vectors of statistics; \<open>c\<close> is the number of the worker.
\<close>

type_synonym ustate = "world \<times> thread_stats"

definition update_int64 ::
  "Externals \<Rightarrow> ColumnDescriptor \<Rightarrow> Chunk \<Rightarrow> SQLTypeInfo \<Rightarrow> nat \<Rightarrow> nat \<Rightarrow> int \<Rightarrow> ustate
   \<Rightarrow> failure option \<times> ustate" where
  "update_int64 X cd chunk rhs_type c data_ptr v st =
     (let lhs_type = columnType cd in
      if is_string lhs_type
      then (Some (RuntimeError ''UPDATE does not support cast to string.''), st)
      else if \<not> validate X lhs_type v then (Some ValidatorThrew, st)
      else
        (case put_at chunk data_ptr (put_scalar_int64 X lhs_type v (Some rhs_type)) (fst st) of
           None \<Rightarrow> (Some UndefinedBehaviour, st)
         | Some w \<Rightarrow>
             if is_decimal lhs_type then
               (let decimal = snd (get_scalar_int64 X lhs_type (bytes_from w chunk data_ptr));
                    ts = fold_int64 c decimal (snd st)
                in if (v \<ge> 0) = (decimal < 0)
                   then (Some (RuntimeError (overflow_message v rhs_type lhs_type)), (w, ts))
                   else (None, (w, ts)))
             else if is_integral lhs_type then
               (if is_date_in_days lhs_type then
                  (let seconds = snd (get_scalar_int64 X lhs_type (bytes_from w chunk data_ptr))
                   in (None, (w, fold_int64 c seconds (snd st))))
                else
                  (None, (w, fold_int64 c
                     (int64_of_double X
                        (if is_decimal rhs_type
                         then round_double X (decimal_to_double X rhs_type v)
                         else double_of_int64 X v))
                     (snd st))))
             else
               (None, (w, fold_double c
                  (if is_decimal rhs_type then decimal_to_double X rhs_type v
                   else double_of_int64 X v)
                  (snd st)))))"

definition update_double ::
  "Externals \<Rightarrow> ColumnDescriptor \<Rightarrow> Chunk \<Rightarrow> nat \<Rightarrow> nat \<Rightarrow> rat \<Rightarrow> ustate
   \<Rightarrow> failure option \<times> ustate" where
  "update_double X cd chunk c data_ptr v st =
     (let lhs_type = columnType cd in
      if is_string lhs_type
      then (Some (RuntimeError ''UPDATE does not support cast to string.''), st)
      else
        (case put_at chunk data_ptr (put_scalar_double X lhs_type v) (fst st) of
           None \<Rightarrow> (Some UndefinedBehaviour, st)
         | Some w \<Rightarrow>
             if is_integer lhs_type
             then (None, (w, fold_int64 c (int64_of_double X v) (snd st)))
             else (None, (w, fold_double c v (snd st)))))"

definition update_float ::
  "Externals \<Rightarrow> ColumnDescriptor \<Rightarrow> Chunk \<Rightarrow> nat \<Rightarrow> nat \<Rightarrow> rat \<Rightarrow> ustate
   \<Rightarrow> failure option \<times> ustate" where
  "update_float X cd chunk c data_ptr v st =
     (let lhs_type = columnType cd in
      if is_string lhs_type
      then (Some (RuntimeError ''UPDATE does not support cast to string.''), st)
      else
        (case put_at chunk data_ptr (put_scalar_float X lhs_type v) (fst st) of
           None \<Rightarrow> (Some UndefinedBehaviour, st)
         | Some w \<Rightarrow>
             if is_integer lhs_type
             then (None, (w, fold_int64 c (int64_of_double X v) (snd st)))
             else (None, (w, fold_double c v (snd st)))))"

definition SECSPERDAY :: rat where
  "SECSPERDAY = 86400"

definition update_string ::
  "Externals \<Rightarrow> ColumnDescriptor \<Rightarrow> Chunk \<Rightarrow> nat option \<Rightarrow> nat \<Rightarrow> nat \<Rightarrow> string option
   \<Rightarrow> ustate \<Rightarrow> failure option \<times> ustate" where
  "update_string X cd chunk stringDict_ptr c data_ptr s st =
     (let lhs_type = columnType cd;
          sval = (case s of Some str \<Rightarrow> str | None \<Rightarrow> []) in
      if is_string lhs_type then
        (case stringDict_ptr of
           None \<Rightarrow> (Some UndefinedBehaviour, st)
         | Some p \<Rightarrow>
             (case getOrAdd X (dict_heap (fst st) p) sval of
                (sidx, dict') \<Rightarrow>
                  let w1 = (fst st)\<lparr>dict_heap := (dict_heap (fst st))(p := dict')\<rparr> in
                  (case put_at chunk data_ptr (put_scalar_int32 X lhs_type sidx) w1 of
                     None \<Rightarrow> (Some UndefinedBehaviour, (w1, snd st))
                   | Some w \<Rightarrow> (None, (w, fold_int64 c sidx (snd st))))))
      else if length sval > 0 then
        (let dval = (if is_boolean lhs_type
                     then (if sval = ''t'' \<or> sval = ''true'' \<or> sval = ''T'' \<or> sval = ''True''
                           then 1 else 0)
                     else if is_time lhs_type
                     then double_of_int64 X (StringToDatum_timeval X sval lhs_type)
                     else atof X sval)
         in if is_fp lhs_type \<or> is_decimal lhs_type then
              (case put_at chunk data_ptr (put_scalar_double X lhs_type dval) (fst st) of
                 None \<Rightarrow> (Some UndefinedBehaviour, st)
               | Some w \<Rightarrow> (None, (w, fold_double c dval (snd st))))
            else
              (let dval' = (if is_date_in_days lhs_type then double_mult X dval SECSPERDAY
                            else dval)
               in case put_at chunk data_ptr
                         (put_scalar_int64 X lhs_type (int64_of_double X dval') None) (fst st) of
                    None \<Rightarrow> (Some UndefinedBehaviour, st)
                  | Some w \<Rightarrow> (None, (w, fold_int64 c (int64_of_double X dval') (snd st)))))
      else
        (case put_at chunk data_ptr (put_null X lhs_type) (fst st) of
           None \<Rightarrow> (Some UndefinedBehaviour, st)
         | Some w \<Rightarrow>
             (None, (w, (snd st)\<lparr>has_null_per_thread := (has_null_per_thread (snd st))[c := True],
                                 folded := folded (snd st) @ [WroteNull]\<rparr>))))"

text \<open>
  Lines 209 to 223: a right-hand side of string type that arrives as an index is looked
  up in the dictionary of the right-hand side and replaced by the string.
\<close>

definition resolve_rhs ::
  "Externals \<Rightarrow> Catalog \<Rightarrow> SQLTypeInfo \<Rightarrow> world \<Rightarrow> ScalarTargetValue
   \<Rightarrow> failure + ScalarTargetValue" where
  "resolve_rhs X cat rhs_type w sv =
     (if is_string rhs_type then
        (case sv of
           Int64Value vp \<Rightarrow>
             (case getMetadataForDict cat (get_comp_param rhs_type) of
                None \<Rightarrow>
                  Inl (RuntimeError
                    ''UPDATE does not support cast from string literal to string column.'')
              | Some dictDesc \<Rightarrow>
                  (case stringDict dictDesc of
                     None \<Rightarrow> Inl CheckFailed
                   | Some p \<Rightarrow> Inr (NullableStringValue (Some (getString X (dict_heap w p) vp)))))
         | DoubleValue x \<Rightarrow> Inr sv
         | FloatValue x \<Rightarrow> Inr sv
         | NullableStringValue x \<Rightarrow> Inr sv)
      else Inr sv)"

definition update_element ::
  "Externals \<Rightarrow> Catalog \<Rightarrow> ColumnDescriptor \<Rightarrow> Chunk \<Rightarrow> nat option \<Rightarrow> SQLTypeInfo \<Rightarrow> nat list
   \<Rightarrow> ScalarTargetValue list \<Rightarrow> nat \<Rightarrow> nat \<Rightarrow> ustate \<Rightarrow> failure option \<times> ustate" where
  "update_element X cat cd chunk stringDict_ptr rhs_type frag_offsets rhs_values c r st =
     (let lhs_type = columnType cd;
          roffs = frag_offsets ! r;
          data_ptr = nat (u64 (int roffs * int (get_element_size lhs_type)));
          sv = rhs_values ! (if 1 = length rhs_values then 0 else r)
      in case resolve_rhs X cat rhs_type (fst st) sv of
           Inl e \<Rightarrow> (Some e, st)
         | Inr (Int64Value v) \<Rightarrow> update_int64 X cd chunk rhs_type c data_ptr v st
         | Inr (DoubleValue v) \<Rightarrow> update_double X cd chunk c data_ptr v st
         | Inr (FloatValue v) \<Rightarrow> update_float X cd chunk c data_ptr v st
         | Inr (NullableStringValue s2) \<Rightarrow>
             update_string X cd chunk stringDict_ptr c data_ptr s2 st)"

text \<open>
  Lines 172 to 192, run by every worker before its loop: the logical column descriptor
  and, for a string column, the dictionary.
\<close>

definition worker_prologue ::
  "Fragmenter \<Rightarrow> Catalog \<Rightarrow> TableDescriptor \<Rightarrow> ColumnDescriptor \<Rightarrow> failure + nat option" where
  "worker_prologue frg cat td cd =
     (let lhs_type = columnType cd in
      case (if shard frg < 0 then Some cd
            else getMetadataForColumn cat (getLogicalTableId cat (tableId td)) (columnId cd)) of
        None \<Rightarrow> Inl CheckFailed
      | Some cdl \<Rightarrow>
          if is_string lhs_type then
            (if get_compression lhs_type \<noteq> kENCODING_DICT then Inl CheckFailed
             else
               (case getMetadataForDict cat (get_comp_param (columnType cdl)) of
                  None \<Rightarrow> Inl CheckFailed
                | Some dictDesc \<Rightarrow>
                    (case stringDict dictDesc of
                       None \<Rightarrow> Inl CheckFailed
                     | Some p \<Rightarrow> Inr (Some p))))
          else Inr None)"

fun worker_loop ::
  "(nat \<Rightarrow> ustate \<Rightarrow> failure option \<times> ustate) \<Rightarrow> nat list \<Rightarrow> ustate
   \<Rightarrow> failure option \<times> ustate" where
  "worker_loop element [] st = (None, st)"
| "worker_loop element (r # rows) st =
     (case element r st of
        (Some e, st') \<Rightarrow> (Some e, st')
      | (None, st') \<Rightarrow> worker_loop element rows st')"

definition worker ::
  "Externals \<Rightarrow> Fragmenter \<Rightarrow> Catalog \<Rightarrow> TableDescriptor \<Rightarrow> ColumnDescriptor \<Rightarrow> Chunk
   \<Rightarrow> SQLTypeInfo \<Rightarrow> nat list \<Rightarrow> ScalarTargetValue list \<Rightarrow> nat \<Rightarrow> nat \<Rightarrow> nat \<Rightarrow> ustate
   \<Rightarrow> failure option \<times> ustate" where
  "worker X frg cat td cd chunk rhs_type frag_offsets rhs_values segsz c rbegin st =
     (case worker_prologue frg cat td cd of
        Inl e \<Rightarrow> (Some e, st)
      | Inr stringDict_ptr \<Rightarrow>
          worker_loop
            (update_element X cat cd chunk stringDict_ptr rhs_type frag_offsets rhs_values c)
            [rbegin..<min (rbegin + segsz) (length frag_offsets)] st)"

text \<open>
  The reduction of the per-worker vectors, lines 359 to 374, and the call of
  \<^verbatim>\<open>updateColumnMetadata\<close> with \<^verbatim>\<open>cd->columnType\<close> as its \<^verbatim>\<open>rhs_type\<close>.
\<close>

definition reduce_and_publish ::
  "Externals \<Rightarrow> ColumnDescriptor \<Rightarrow> nat \<Rightarrow> Chunk \<Rightarrow> thread_stats \<Rightarrow> world
   \<Rightarrow> failure option \<times> world" where
  "reduce_and_publish X cd fragment chunk ts w =
     updateColumnMetadata X cd fragment chunk
       (fold (\<lambda>h acc. acc \<or> h) (has_null_per_thread ts) False)
       (fold (\<lambda>x acc. max acc x) (max_double_per_thread ts) DBL_MIN)
       (fold (\<lambda>x acc. min acc x) (min_double_per_thread ts) DBL_MAX)
       (fold (\<lambda>x acc. max acc x) (max_int64t_per_thread ts) INT64_MIN)
       (fold (\<lambda>x acc. min acc x) (min_int64t_per_thread ts) INT64_MAX)
       (columnType cd) w"

text \<open>
  \<^verbatim>\<open>InsertOrderFragmenter::updateColumn\<close>, lines 100 to 385. \<open>unconditionalVacuum\<close> is
  the static flag \<^verbatim>\<open>FragmentInfo::unconditionalVacuum_\<close>; \<open>fcat\<close> is the fragmenter's own
  \<^verbatim>\<open>catalog_\<close>.
\<close>

definition updateColumn ::
  "Externals \<Rightarrow> bool \<Rightarrow> Fragmenter \<Rightarrow> Catalog \<Rightarrow> Catalog \<Rightarrow> TableDescriptor \<Rightarrow> ColumnDescriptor
   \<Rightarrow> int \<Rightarrow> nat list \<Rightarrow> ScalarTargetValue list \<Rightarrow> SQLTypeInfo \<Rightarrow> MemoryLevel \<Rightarrow> world
   \<Rightarrow> failure option \<times> world" where
  "updateColumn X unconditionalVacuum frg fcat cat td cd fragment_id frag_offsets rhs_values
     rhs_type memory_level w =
     (let w0 = w\<lparr>updel_roll := (updel_roll w)\<lparr>catalog := Some cat,
                   logicalTableId := getLogicalTableId cat (tableId td),
                   memoryLevel := memory_level\<rparr>\<rparr>;
          ncore = cpu_threads X;
          nrow = length frag_offsets;
          n_rhs_values = length rhs_values
      in
      if 0 = nrow then (None, w0)
      else if \<not> (nrow = n_rhs_values \<or> 1 = n_rhs_values) then (Some CheckFailed, w0)
      else
        (case getFragmentInfoFromId frg w0 fragment_id of
           Inl e \<Rightarrow> (Some e, w0)
         | Inr fragment \<Rightarrow>
        (case chunkMetadataMap (fragment_heap w0 fragment) (columnId cd) of
           None \<Rightarrow> (Some CheckFailed, w0)
         | Some chunk_meta \<Rightarrow>
        (case getChunk cd
                [currentDB_dbId cat, tableId td, columnId cd,
                 fragmentId (fragment_heap w0 fragment)]
                CPU_LEVEL w0 of
           (chunk, w1) \<Rightarrow>
             if ncore = 0 then (Some UndefinedBehaviour, w1)
             else
               let segsz = (nrow + ncore - 1) div ncore;
                   w2 = set_buffer chunk (setUpdated (get_buffer w1 chunk)) w1;
                   w3 = mark_dirty chunk w2;
                   w4 = w3\<lparr>updel_roll := (updel_roll w3)\<lparr>dirtyChunkeys :=
                          oset_insert
                            [currentDB_dbId cat, cd_tableId cd, columnId cd,
                             fragmentId (fragment_heap w0 fragment)]
                            (dirtyChunkeys (updel_roll w3))\<rparr>\<rparr>
               in
               (case run_threads
                       (worker X frg cat td cd chunk rhs_type frag_offsets rhs_values segsz)
                       nrow segsz 0 0 (None, w4, updateColumn_init ncore) of
                  (Some e, w5, ts) \<Rightarrow> (Some e, w5)
                | (None, w5, ts) \<Rightarrow>
                    (if unconditionalVacuum \<and> isDeletedCol cd then
                       (case getVacuumOffsets (get_buffer w5 chunk) frag_offsets of
                          None \<Rightarrow> (Some UndefinedBehaviour, w5)
                        | Some deleted_offsets \<Rightarrow>
                            if length deleted_offsets > 0
                            then compactRows X frg fcat cat td fragment_id deleted_offsets
                                   memory_level w5
                            else reduce_and_publish X cd fragment chunk ts w5)
                     else reduce_and_publish X cd fragment chunk ts w5))))))"

text \<open>
  The two overloads that delegate to it: the one that takes a single right-hand side
  (lines 80 to 98) and the one that resolves the table and the column by name (lines 56
  to 78) and calls the fragmenter of the table.
\<close>

definition updateColumn_single ::
  "Externals \<Rightarrow> bool \<Rightarrow> Fragmenter \<Rightarrow> Catalog \<Rightarrow> Catalog \<Rightarrow> TableDescriptor \<Rightarrow> ColumnDescriptor
   \<Rightarrow> int \<Rightarrow> nat list \<Rightarrow> ScalarTargetValue \<Rightarrow> SQLTypeInfo \<Rightarrow> MemoryLevel \<Rightarrow> world
   \<Rightarrow> failure option \<times> world" where
  "updateColumn_single X unconditionalVacuum frg fcat cat td cd fragment_id frag_offsets rhs_value
     rhs_type memory_level w =
     updateColumn X unconditionalVacuum frg fcat cat td cd fragment_id frag_offsets [rhs_value]
       rhs_type memory_level w"

definition updateColumn_by_name ::
  "Externals \<Rightarrow> bool \<Rightarrow> Catalog \<Rightarrow> Catalog \<Rightarrow> string \<Rightarrow> string
   \<Rightarrow> int \<Rightarrow> nat list \<Rightarrow> ScalarTargetValue list \<Rightarrow> SQLTypeInfo \<Rightarrow> MemoryLevel \<Rightarrow> world
   \<Rightarrow> failure option \<times> world" where
  "updateColumn_by_name X unconditionalVacuum fcat cat tab_name col_name fragment_id frag_offsets
     rhs_values rhs_type memory_level w =
     (case getMetadataForTableByName cat tab_name of
        None \<Rightarrow> (Some CheckFailed, w)
      | Some td \<Rightarrow>
          (case getMetadataForColumnByName cat (tableId td) col_name of
             None \<Rightarrow> (Some CheckFailed, w)
           | Some cd \<Rightarrow>
               updateColumn X unconditionalVacuum (fragmenter td) fcat cat td cd fragment_id
                 frag_offsets rhs_values rhs_type memory_level w))"

section \<open>Commit\<close>

text \<open>
  \<^verbatim>\<open>InsertOrderFragmenter::updateMetadata\<close>, lines 434 to 456. The write lock on
  \<^verbatim>\<open>fragmentInfoMutex_\<close> is taken on entry and released on return; \<open>td_ptr\<close> names the
  table whose fragmenter is called. \<^verbatim>\<open>updel_roll.numTuples[key]\<close> value-initialises a
  missing entry to 0.
\<close>

definition publish :: "MetaDataKey \<Rightarrow> world \<Rightarrow> world" where
  "publish key w =
     (case map_of (chunkMetadata (updel_roll w)) key of
        None \<Rightarrow> w
      | Some shadow \<Rightarrow>
          let n = (case numTuples (updel_roll w) key of None \<Rightarrow> 0 | Some k \<Rightarrow> k);
              w1 = w\<lparr>updel_roll := (updel_roll w)\<lparr>numTuples := (numTuples (updel_roll w))(key \<mapsto> n)\<rparr>\<rparr>
          in w1\<lparr>fragment_heap := (fragment_heap w1)
                  (snd key := (fragment_heap w1 (snd key))
                     \<lparr>physicalNumTuples := n, shadowNumTuples := n,
                      chunkMetadataMap := shadow, shadowChunkMetadataMap := shadow\<rparr>),
                trace := trace w1 @ [FragmentPublished (fst key) (snd key)]\<rparr>)"

definition updateMetadata_fragmenter :: "int option \<Rightarrow> MetaDataKey \<Rightarrow> world \<Rightarrow> world" where
  "updateMetadata_fragmenter td_ptr key w =
     (let w1 = w\<lparr>trace := trace w @ [WriteLock_fragmentInfoMutex td_ptr]\<rparr>;
          w2 = publish key w1
      in w2\<lparr>trace := trace w2 @ [WriteUnlock_fragmentInfoMutex td_ptr]\<rparr>)"

text \<open>
  \<^verbatim>\<open>UpdelRoll::commitUpdate\<close>, lines 766 to 788. A key whose table pointer is null is
  dereferenced by \<^verbatim>\<open>cm.first.first->fragmenter\<close>.
\<close>

fun commit_fragments :: "MetaDataKey list \<Rightarrow> world \<Rightarrow> failure option \<times> world" where
  "commit_fragments [] w = (None, w)"
| "commit_fragments (key # keys) w =
     (case fst key of
        None \<Rightarrow> (Some UndefinedBehaviour, w)
      | Some tid \<Rightarrow> commit_fragments keys (updateMetadata_fragmenter (Some tid) key w))"

definition commitUpdate :: "world \<Rightarrow> failure option \<times> world" where
  "commitUpdate w =
     (case catalog (updel_roll w) of
        None \<Rightarrow> (None, w)
      | Some cat \<Rightarrow>
          (case getMetadataForTable cat (logicalTableId (updel_roll w)) of
             None \<Rightarrow> (Some CheckFailed, w)
           | Some td \<Rightarrow>
               let w1 = (if persistenceLevel td = DISK_LEVEL
                         then w\<lparr>trace := trace w @ [Checkpoint (logicalTableId (updel_roll w))]\<rparr>
                         else w)
               in (case commit_fragments (map fst (chunkMetadata (updel_roll w1))) w1 of
                     (Some e, w2) \<Rightarrow> (Some e, w2)
                   | (None, w2) \<Rightarrow>
                       let w3 = w2\<lparr>updel_roll := (updel_roll w2)\<lparr>dirtyChunks := Map.empty\<rparr>,
                                   trace := trace w2 @ [DirtyChunksCleared]\<rparr>
                       in (None,
                           if memoryLevel (updel_roll w3) \<noteq> GPU_LEVEL
                           then w3\<lparr>trace := trace w3
                                   @ map (\<lambda>chunkey. DeleteChunksWithPrefix chunkey GPU_LEVEL)
                                         (dirtyChunkeys (updel_roll w3))\<rparr>
                           else w3))))"


section \<open>The run of the workers, named\<close>

text \<open>
  Names for three values that \<^verbatim>\<open>updateColumn\<close> computes on its way, so that statements
  can refer to them: \<open>workers_start\<close> is the chunk of the column and the state in which the
  workers are started (lines 109 to 111 and 120 to 170 on the fragment found),
  \<open>workers_run\<close> is the result of the loop that starts them and waits for them (lines
  140 to 357), and \<open>written\<close> is the history of what they folded and of the nulls they
  wrote.
\<close>

definition workers_start ::
  "Catalog \<Rightarrow> TableDescriptor \<Rightarrow> ColumnDescriptor \<Rightarrow> MemoryLevel \<Rightarrow> nat \<Rightarrow> world
   \<Rightarrow> Chunk \<times> world" where
  "workers_start cat td cd memory_level fragment w =
     (let w0 = w\<lparr>updel_roll := (updel_roll w)\<lparr>catalog := Some cat,
                   logicalTableId := getLogicalTableId cat (tableId td),
                   memoryLevel := memory_level\<rparr>\<rparr>
      in case getChunk cd
                [currentDB_dbId cat, tableId td, columnId cd,
                 fragmentId (fragment_heap w0 fragment)]
                CPU_LEVEL w0 of
           (chunk, w1) \<Rightarrow>
             let w2 = set_buffer chunk (setUpdated (get_buffer w1 chunk)) w1;
                 w3 = mark_dirty chunk w2;
                 w4 = w3\<lparr>updel_roll := (updel_roll w3)\<lparr>dirtyChunkeys :=
                        oset_insert
                          [currentDB_dbId cat, cd_tableId cd, columnId cd,
                           fragmentId (fragment_heap w0 fragment)]
                          (dirtyChunkeys (updel_roll w3))\<rparr>\<rparr>
             in (chunk, w4))"

definition workers_run ::
  "Externals \<Rightarrow> Fragmenter \<Rightarrow> Catalog \<Rightarrow> TableDescriptor \<Rightarrow> ColumnDescriptor \<Rightarrow> nat list
   \<Rightarrow> ScalarTargetValue list \<Rightarrow> SQLTypeInfo \<Rightarrow> MemoryLevel \<Rightarrow> nat \<Rightarrow> world
   \<Rightarrow> failure option \<times> world \<times> thread_stats" where
  "workers_run X frg cat td cd frag_offsets rhs_values rhs_type memory_level fragment w =
     (let ncore = cpu_threads X;
          nrow = length frag_offsets;
          segsz = (nrow + ncore - 1) div ncore
      in case workers_start cat td cd memory_level fragment w of
           (chunk, w4) \<Rightarrow>
             run_threads (worker X frg cat td cd chunk rhs_type frag_offsets rhs_values segsz)
               nrow segsz 0 0 (None, w4, updateColumn_init ncore))"

definition written ::
  "Externals \<Rightarrow> Fragmenter \<Rightarrow> Catalog \<Rightarrow> TableDescriptor \<Rightarrow> ColumnDescriptor \<Rightarrow> nat list
   \<Rightarrow> ScalarTargetValue list \<Rightarrow> SQLTypeInfo \<Rightarrow> MemoryLevel \<Rightarrow> nat \<Rightarrow> world
   \<Rightarrow> fold_event list" where
  "written X frg cat td cd frag_offsets rhs_values rhs_type memory_level fragment w =
     folded (snd (snd (workers_run X frg cat td cd frag_offsets rhs_values rhs_type
                         memory_level fragment w)))"

text \<open>
  The column types whose encoder \<^verbatim>\<open>updateColumnMetadata\<close> feeds with the \<^verbatim>\<open>int64_t\<close>
  pair when it is called with the column's own type as \<^verbatim>\<open>rhs_type\<close>, as \<^verbatim>\<open>updateColumn\<close>
  calls it (lines 400 to 426): all but the floating-point types, the arrays, the
  geometries and the strings without a dictionary.
\<close>

definition tracks_int64 :: "SQLTypeInfo \<Rightarrow> bool" where
  "tracks_int64 t =
     (\<not> is_fp t \<and> \<not> is_array t \<and> \<not> is_geometry t
      \<and> \<not> (is_string t \<and> get_compression t \<noteq> kENCODING_DICT))"

text \<open>
  What the per-worker vectors of \<open>n\<close> workers know of the history: every folded value
  lies between some worker's minimum and some worker's maximum of its domain, and a null
  was written exactly when some worker's flag is set.
\<close>

definition accumulators_cover :: "nat \<Rightarrow> thread_stats \<Rightarrow> bool" where
  "accumulators_cover n ts =
     (length (has_null_per_thread ts) = n
      \<and> length (max_double_per_thread ts) = n \<and> length (min_double_per_thread ts) = n
      \<and> length (max_int64t_per_thread ts) = n \<and> length (min_int64t_per_thread ts) = n
      \<and> (\<forall>x. FoldedInt64 x \<in> set (folded ts)
             \<longrightarrow> (\<exists>c<n. min_int64t_per_thread ts ! c \<le> x)
                 \<and> (\<exists>c<n. x \<le> max_int64t_per_thread ts ! c))
      \<and> (\<forall>x. FoldedDouble x \<in> set (folded ts)
             \<longrightarrow> (\<exists>c<n. min_double_per_thread ts ! c \<le> x)
                 \<and> (\<exists>c<n. x \<le> max_double_per_thread ts ! c))
      \<and> ((WroteNull \<in> set (folded ts)) = (\<exists>c<n. has_null_per_thread ts ! c)))"

section \<open>A concrete instance for the examples\<close>

text \<open>
  The closed examples below need values for the parameters. The accessors of the instance
  store integers in little-endian two's complement of the column's element size and
  take the least value as the null; its dictionary appends a string it does not hold.
  Nothing but the examples depends on this instance.
\<close>

definition le_bytes :: "nat \<Rightarrow> int \<Rightarrow> byte list" where
  "le_bytes n v = map (\<lambda>i. word_of_int (v div 256 ^ i)) [0..<n]"

definition le_value :: "byte list \<Rightarrow> int" where
  "le_value bs = foldr (\<lambda>b acc. uint b + 256 * acc) bs 0"

definition le_signed :: "nat \<Rightarrow> byte list \<Rightarrow> int" where
  "le_signed n bs =
     (le_value (take n bs) + 2 ^ (8 * n - 1)) mod 2 ^ (8 * n) - 2 ^ (8 * n - 1)"

definition example_accessors :: Externals where
  "example_accessors =
     \<lparr>cpu_threads = 2,
      validate = (\<lambda>t v. True),
      put_scalar_int64 = (\<lambda>t v rt. le_bytes (get_element_size t) v),
      put_scalar_double = (\<lambda>t v. le_bytes (get_element_size t) \<lfloor>v\<rfloor>),
      put_scalar_float = (\<lambda>t v. le_bytes (get_element_size t) \<lfloor>v\<rfloor>),
      put_scalar_int32 = (\<lambda>t v. le_bytes (get_element_size t) v),
      put_null = (\<lambda>t. le_bytes (get_element_size t) (- (2 ^ (8 * get_element_size t - 1)))),
      get_scalar_int64 = (\<lambda>t bs. (le_signed (get_element_size t) bs
                                      = - (2 ^ (8 * get_element_size t - 1)),
                                    le_signed (get_element_size t) bs)),
      get_scalar_double = (\<lambda>t bs. (le_signed (get_element_size t) bs
                                       = - (2 ^ (8 * get_element_size t - 1)),
                                     of_int (le_signed (get_element_size t) bs))),
      decimal_to_double = (\<lambda>t v. of_int v / 10 ^ nat (get_scale t)),
      round_double = (\<lambda>x. of_int (round x)),
      double_of_int64 = of_int,
      int64_of_double = (\<lambda>x. \<lfloor>x\<rfloor>),
      double_mult = (\<lambda>x y. x * y),
      pow10 = (\<lambda>n. 10 ^ nat n),
      atof = (\<lambda>s. 0),
      StringToDatum_timeval = (\<lambda>s t. 0),
      getOrAdd = (\<lambda>d s. (int (length (takeWhile (\<lambda>x. x \<noteq> s) d)),
                           if s \<in> set d then d else d @ [s])),
      getString = (\<lambda>d i. d ! nat i)\<rparr>"

definition example_type :: "type_family \<Rightarrow> EncodingType \<Rightarrow> nat \<Rightarrow> SQLTypeInfo" where
  "example_type fam enc width =
     \<lparr>get_family = fam, get_compression = enc, get_comp_param = 1, get_dimension = 5,
      get_scale = 2, get_notnull = False, is_date_in_days = False, get_size = width,
      get_element_size = width, is_fixlen_array = False, is_varlen_indeed = False\<rparr>"

definition example_column :: "SQLTypeInfo \<Rightarrow> ColumnDescriptor" where
  "example_column t =
     \<lparr>cd_tableId = 1, columnId = 1, columnName = ''x'', columnType = t,
      isDeletedCol = False, isVirtualCol = False\<rparr>"

definition example_fragmenter :: Fragmenter where
  "example_fragmenter = \<lparr>shard = - 1, fragmentInfoVec = [0]\<rparr>"

definition example_table :: TableDescriptor where
  "example_table =
     \<lparr>tableId = 1, nColumns = 1, persistenceLevel = DISK_LEVEL, fragmenter = example_fragmenter\<rparr>"

definition example_catalog :: "SQLTypeInfo \<Rightarrow> Catalog" where
  "example_catalog t =
     \<lparr>currentDB_dbId = 1,
      getMetadataForTable = (\<lambda>i. if i = 1 then Some example_table else None),
      getMetadataForTableByName = (\<lambda>n. if n = ''t'' then Some example_table else None),
      getMetadataForColumn = (\<lambda>i j. if i = 1 \<and> j = 1 then Some (example_column t) else None),
      getMetadataForColumnByName =
        (\<lambda>i n. if i = 1 \<and> n = ''x'' then Some (example_column t) else None),
      getMetadataForDict = (\<lambda>i. if i = 1 then Some \<lparr>stringDict = Some 0\<rparr> else None),
      getLogicalTableId = (\<lambda>i. i)\<rparr>"

definition example_stats :: "bool \<Rightarrow> int \<Rightarrow> int \<Rightarrow> ChunkStats" where
  "example_stats hn lo hi =
     \<lparr>has_nulls = hn, min_int = lo, max_int = hi, min_fp = of_int lo, max_fp = of_int hi\<rparr>"

definition example_buffer :: "'a list \<Rightarrow> nat \<Rightarrow> ChunkStats \<Rightarrow> 'a Buffer" where
  "example_buffer m n st =
     \<lparr>mem = m, buf_size = n, is_updated = False,
      encoder = \<lparr>num_elems = 3, enc_stats = st, is_FixedLengthArrayNoneEncoder = False,
                 array_updates = []\<rparr>\<rparr>"

definition empty_roll :: UpdelRoll where
  "empty_roll =
     \<lparr>catalog = None, logicalTableId = 0, memoryLevel = CPU_LEVEL, dirtyChunks = Map.empty,
      dirtyChunkeys = [], chunkMetadata = [], numTuples = Map.empty\<rparr>"

text \<open>
  One table with one column and one fragment of three rows; the column's data buffer
  holds \<open>m\<close>, its encoder the statistics \<open>st\<close>.
\<close>

definition example_world :: "byte list \<Rightarrow> ChunkStats \<Rightarrow> world" where
  "example_world m st =
     \<lparr>fragment_heap =
        (\<lambda>p. \<lparr>fragmentId = 0, physicalNumTuples = 3, shadowNumTuples = 3,
               chunkMetadataMap =
                 [1 \<mapsto> \<lparr>numBytes = length m, numElements = 3, chunkStats = st\<rparr>],
               shadowChunkMetadataMap = Map.empty\<rparr>),
      data_buffers = (\<lambda>l k. example_buffer m (length m) st),
      index_buffers = (\<lambda>l k. None),
      dict_heap = (\<lambda>p. []),
      next_chunk_ptr = 0,
      updel_roll = empty_roll,
      trace = []\<rparr>"

text \<open>
  The chunk that \<^verbatim>\<open>updateColumn\<close> obtains for the column of the instance: the first
  chunk handed out, at CPU level, with the key of database 1, table 1, column 1,
  fragment 0.
\<close>

definition example_chunk :: "SQLTypeInfo \<Rightarrow> Chunk" where
  "example_chunk t =
     \<lparr>chunk_ptr = 0, column_desc = example_column t, chunk_level = CPU_LEVEL,
      chunk_key = [1, 1, 1, 0]\<rparr>"

text \<open>
  The scenario of the specification for the fixed-length vacuum: a fragment of five
  \<^verbatim>\<open>BIGINT\<close> rows 10, 20, 30, 40, 50 of eight bytes each.
\<close>

definition example_bigint_rows :: "byte list" where
  "example_bigint_rows =
     [10, 0, 0, 0, 0, 0, 0, 0] @ [20, 0, 0, 0, 0, 0, 0, 0] @ [30, 0, 0, 0, 0, 0, 0, 0]
     @ [40, 0, 0, 0, 0, 0, 0, 0] @ [50, 0, 0, 0, 0, 0, 0, 0]"

definition example_vacuum_world :: world where
  "example_vacuum_world =
     (example_world example_bigint_rows (example_stats False 10 50))
       \<lparr>fragment_heap :=
          (\<lambda>p. \<lparr>fragmentId = 0, physicalNumTuples = 5, shadowNumTuples = 5,
                 chunkMetadataMap =
                   [1 \<mapsto> \<lparr>numBytes = 40, numElements = 5,
                            chunkStats = example_stats False 10 50\<rparr>],
                 shadowChunkMetadataMap = Map.empty\<rparr>)\<rparr>"

text \<open>
  A roll as a statement leaves it before the commit: one dirty chunk key and the shadow
  metadata and tuple count of one fragment of table 1.
\<close>

definition example_commit_world :: world where
  "example_commit_world =
     (example_world [] (example_stats False 0 0))
       \<lparr>updel_roll :=
          \<lparr>catalog = Some (example_catalog (example_type FamInteger kENCODING_NONE 8)),
           logicalTableId = 1, memoryLevel = CPU_LEVEL, dirtyChunks = Map.empty,
           dirtyChunkeys = [[1, 1, 1, 0]],
           chunkMetadata = [((Some 1, 0), [1 \<mapsto> zero_metadata\<lparr>numElements := 2\<rparr>])],
           numTuples = [(Some 1, 0) \<mapsto> 2]\<rparr>\<rparr>"

section \<open>Verification: offsets of the deleted rows\<close>

declare getVacuumOffsets_loop.simps [simp del]

lemma getVacuumOffsets_loop_filter:
  assumes "n \<le> length m" and "r \<le> n"
  shows "getVacuumOffsets_loop m n r acc = Some (acc @ filter (\<lambda>i. m ! i \<noteq> 0) [r..<n])"
  using assms
proof (induction m n r acc rule: getVacuumOffsets_loop.induct)
  case (1 m n r acc)
  show ?case
  proof (cases "r < n")
    case True
    then have rl: "r < length m" using "1.prems" by simp
    have up: "[r..<n] = r # [Suc r..<n]" using True by (simp add: upt_conv_Cons)
    from True rl "1.IH" [OF True rl] "1.prems" show ?thesis
      by (subst getVacuumOffsets_loop.simps) (simp add: up)
  next
    case False
    then show ?thesis using "1.prems"
      by (subst getVacuumOffsets_loop.simps) simp
  qed
qed

lemma sorted_wrt_filter_upt: "sorted_wrt (<) (filter P [i..<j])"
  by (rule sorted_wrt_filter) (simp add: sorted_wrt_iff_nth_less)

text \<open>
  C10: on a delete-column buffer whose \<open>size\<close> bytes are in memory, getVacuumOffsets
  returns the positions below \<open>size\<close> whose byte is non-zero, each once and in strictly
  increasing order, so the result satisfies the precondition of the vacuum for any
  fragment with at least \<open>size\<close> rows.
\<close>

theorem getVacuumOffsets_exact:
  assumes "buf_size b \<le> length (mem b)"
  shows "\<exists>ds. getVacuumOffsets b fo = Some ds
           \<and> ds = filter (\<lambda>r. mem b ! r \<noteq> 0) [0..<buf_size b]
           \<and> set ds = {r. r < buf_size b \<and> mem b ! r \<noteq> 0}
           \<and> sorted_wrt (<) ds
           \<and> vacuum_offsets_ok (buf_size b) ds"
proof -
  let ?ds = "filter (\<lambda>r. mem b ! r \<noteq> 0) [0..<buf_size b]"
  have run: "getVacuumOffsets b fo = Some ?ds"
    using getVacuumOffsets_loop_filter [OF assms, of 0 "[]"]
    by (simp add: getVacuumOffsets_def)
  have srt: "sorted_wrt (<) ?ds" by (rule sorted_wrt_filter_upt)
  have st: "set ?ds = {r. r < buf_size b \<and> mem b ! r \<noteq> 0}" by auto
  have rng: "list_all (\<lambda>d. d < buf_size b) ?ds" by (simp add: list_all_iff)
  show ?thesis using run srt st rng by (simp add: vacuum_offsets_ok_def)
qed

theorem getVacuumOffsets_exact_witness:
  "getVacuumOffsets \<lparr>mem = [0, 1, 0, 1, 1], buf_size = 5, is_updated = False, encoder = fresh_encoder\<rparr> []
     = Some [1, 3, 4]
   \<and> vacuum_offsets_ok 5 [1, 3, 4]"
proof -
  let ?b = "\<lparr>mem = [0, 1, 0, 1, 1 :: byte], buf_size = 5, is_updated = False, encoder = fresh_encoder\<rparr>"
  have h: "buf_size ?b \<le> length (mem ?b)" by simp
  have up: "[0..<5] = [0, 1, 2, 3, 4]" by (simp add: upt_rec)
  show ?thesis using getVacuumOffsets_exact [OF h, of "[]"] by (simp add: up)
qed

section \<open>Verification: fixed-length vacuum\<close>

lemma u64_id: "0 \<le> x \<Longrightarrow> x < 2 ^ 64 \<Longrightarrow> u64 x = x"
  by (simp add: u64_def)

lemma s64_id: "- (2 ^ 63) \<le> x \<Longrightarrow> x < 2 ^ 63 \<Longrightarrow> s64 x = x"
  by (simp add: s64_def)

lemma s64_u64_id: 
  assumes "- (2 ^ 63) \<le> x" "x < 2 ^ 63" shows "s64 (u64 x) = x"
proof -
  have "(x mod 2 ^ 64 + 2 ^ 63) mod 2 ^ 64 = (x + 2 ^ 63) mod (2 ^ 64 :: int)"
    by (rule mod_add_left_eq)
  also have "\<dots> = x + 2 ^ 63" using assms by simp
  finally show ?thesis by (simp add: s64_def u64_def)
qed

lemma row_bytes_concat:
  assumes "j * es \<le> length m" and "i \<le> j"
  shows "concat (map (row_bytes es m) [i..<j]) = take ((j - i) * es) (drop (i * es) m)"
  using assms
proof (induction j)
  case 0
  then show ?case by simp
next
  case (Suc j)
  show ?case
  proof (cases "i = Suc j")
    case True
    then show ?thesis by simp
  next
    case False
    then have ij: "i \<le> j" using Suc.prems by simp
    have jl: "j * es \<le> length m" using Suc.prems by simp
    have eq: "(Suc j - i) * es = (j - i) * es + es" using ij by (simp add: Suc_diff_le)
    have sm: "i * es + (j - i) * es = j * es" using ij
      by (simp flip: add_mult_distrib)
    have "take ((j - i) * es + es) (drop (i * es) m)
          = take ((j - i) * es) (drop (i * es) m) @ take es (drop ((j - i) * es) (drop (i * es) m))"
      by (simp only: take_add)
    also have "drop ((j - i) * es) (drop (i * es) m) = drop (j * es) m"
      by (simp only: drop_drop add.commute sm)
    finally have tk: "take ((Suc j - i) * es) (drop (i * es) m)
          = take ((j - i) * es) (drop (i * es) m) @ row_bytes es m j"
      by (simp only: eq row_bytes_def)
    have "[i..<Suc j] = [i..<j] @ [j]" using ij by simp
    then show ?thesis using Suc.IH [OF jl ij] by (simp only: tk map_append concat_append list.map concat.simps append_Nil2)
  qed
qed

lemma vacuum_fixlen_step_run:
  assumes fk: "f \<le> k" and kd: "k \<le> d" and dl: "d * es \<le> length m"
    and dN: "int d < 2 ^ 63" and lm: "int (length m) < 2 ^ 63"
  shows "vacuum_fixlen_step es d (int k, int f, int (f * es), m)
         = Some (s64 (u64 (int d + 1)), int (f + (d - k)), int ((f + (d - k)) * es),
                 (if k < d \<and> f \<noteq> k
                  then take (f * es) m @ take ((d - k) * es) (drop (k * es) m)
                       @ drop ((f + (d - k)) * es) m
                  else m))"
proof -
  define n where "n = d - k"
  have p: "(2::int) ^ 63 \<le> 2 ^ 64" by simp
  have mono: "int (a * es) < 2 ^ 63 \<and> a * es \<le> length m" if "a \<le> d" for a
  proof -
    from that have "a * es \<le> d * es" by (rule mult_le_mono1)
    then show ?thesis using dl lm by linarith
  qed
  have wrap: "u64 (int a * int es) = int (a * es)" if "a \<le> d" for a
    using mono [OF that] p u64_id [of "int (a * es)"] by simp
  have nd: "n \<le> d" and fd: "f + n \<le> d" using fk kd by (simp_all add: n_def)
  have nk: "s64 (u64 (int d - int k)) = int n"
    using kd dN by (simp add: s64_u64_id of_nat_diff n_def)
  have w1: "u64 (int n * int es) = int (n * es)" by (rule wrap [OF nd])
  have w2: "u64 (int f * int es) = int (f * es)" by (rule wrap) (use fk kd in simp)
  have w3: "u64 (int k * int es) = int (k * es)" by (rule wrap [OF kd])
  have fill: "s64 (int f + int n) = int (f + n)"
    using fd dN s64_id [of "int (f + n)"] by simp
  have nb: "u64 (int (f * es) + int (n * es)) = int ((f + n) * es)"
    using mono [OF fd] p u64_id [of "int ((f + n) * es)"]
    by (simp add: add_mult_distrib)
  have src: "k * es + n * es \<le> length m"
    using kd dl by (simp add: n_def flip: add_mult_distrib)
  have dst: "f * es + n * es \<le> length m"
    using mono [OF fd] by (simp add: add_mult_distrib)
  have step: "vacuum_fixlen_step es d (int k, int f, int (f * es), m)
     = (if 0 < int n then
          (case (if int f \<noteq> int k then memmove m (f * es) (k * es) (n * es) else Some m) of
             None \<Rightarrow> None
           | Some m' \<Rightarrow> Some (s64 (u64 (int d + 1)), int (f + n), int ((f + n) * es), m'))
        else Some (s64 (u64 (int d + 1)), int f, int (f * es), m))"
    unfolding vacuum_fixlen_step_def Let_def prod.case nk w1 w2 w3 fill nb nat_int ..
  show ?thesis
  proof (cases "k < d")
    case True
    then have pos: "0 < n" by (simp add: n_def)
    show ?thesis
    proof (cases "f = k")
      case True
      with pos show ?thesis unfolding step n_def [symmetric] by simp
    next
      case False
      with pos src dst True show ?thesis unfolding step memmove_def n_def [symmetric]
        by (simp add: add_mult_distrib)
    qed
  next
    case False
    then have "n = 0" by (simp add: n_def)
    then show ?thesis unfolding step n_def [symmetric] by simp
  qed
qed

lemma strict_sorted_length_le:
  assumes "sorted_wrt (<) ds" and "\<forall>x\<in>set ds. a \<le> x \<and> x < (N::nat)"
  shows "length ds \<le> N - a"
proof -
  have "distinct ds" using assms(1) by (simp add: strict_sorted_iff)
  then have "length ds = card (set ds)" by (simp add: distinct_card)
  also have "\<dots> \<le> card {a..<N}" using assms(2) by (intro card_mono) auto
  finally show ?thesis by simp
qed

lemma block_move_facts:
  fixes m :: "'a list"
  assumes ac: "a \<le> c" and cb: "c + b \<le> length m"
  defines "m' \<equiv> take a m @ take b (drop c m) @ drop (a + b) m"
  shows "length m' = length m"
    and "take (a + b) m' = take a m @ take b (drop c m)"
    and "drop (c + b) m' = drop (c + b) m"
proof -
  have lA: "length (take a m) = a" using ac cb by simp
  have lB: "length (take b (drop c m)) = b" using cb by simp
  show "length m' = length m" unfolding m'_def using lA lB ac cb by simp
  show "take (a + b) m' = take a m @ take b (drop c m)"
    unfolding m'_def using lA lB by simp
  have "drop (c + b) ((take a m @ take b (drop c m)) @ drop (a + b) m)
        = drop (c + b - (a + b)) (drop (a + b) m)"
    using lA lB ac by simp
  also have "\<dots> = drop (c + b) m" using ac by simp
  finally show "drop (c + b) m' = drop (c + b) m" unfolding m'_def by simp
qed

lemma moved_block:
  fixes m :: "'a list"
  assumes fk: "f \<le> k" and kd: "k \<le> d" and dl: "d * es \<le> length m"
  defines "m' \<equiv> (if k < d \<and> f \<noteq> k
                  then take (f * es) m @ take ((d - k) * es) (drop (k * es) m)
                       @ drop ((f + (d - k)) * es) m
                  else m)"
  shows "length m' = length m"
    and "take ((f + (d - k)) * es) m' = take (f * es) m @ take ((d - k) * es) (drop (k * es) m)"
    and "drop (d * es) m' = drop (d * es) m"
proof -
  define a b c where "a = f * es" and "b = (d - k) * es" and "c = k * es"
  have ac: "a \<le> c" unfolding a_def c_def using fk by (rule mult_le_mono1)
  have cbe: "c + b = d * es" unfolding b_def c_def using kd by (simp flip: add_mult_distrib)
  have cb: "c + b \<le> length m" using cbe dl by simp
  have ab: "(f + (d - k)) * es = a + b" unfolding a_def b_def by (simp add: add_mult_distrib)
  note mv = block_move_facts [OF ac cb]
  have m': "m' = (if k < d \<and> f \<noteq> k then take a m @ take b (drop c m) @ drop (a + b) m else m)"
    unfolding m'_def ab unfolding a_def b_def c_def ..
  show "length m' = length m" unfolding m' using mv(1) by simp
  show "take ((f + (d - k)) * es) m' = take (f * es) m @ take ((d - k) * es) (drop (k * es) m)"
  proof (cases "k < d \<and> f \<noteq> k")
    case True
    then show ?thesis unfolding ab m' using mv(2) by (simp add: a_def b_def c_def)
  next
    case False
    then consider "d = k" | "f = k" using kd by auto
    then show ?thesis
    proof cases
      case 1
      then show ?thesis unfolding m'_def by simp
    next
      case 2
      have mm: "m' = m" using 2 by (simp add: m'_def)
      show ?thesis unfolding mm 2 by (simp add: add_mult_distrib take_add)
    qed
  qed
  show "drop (d * es) m' = drop (d * es) m"
    unfolding m' cbe [symmetric] using mv(3) by simp
qed

lemma row_bytes_drop_eq:
  assumes "drop (d * es) m' = drop (d * es) m" and "d \<le> i"
  shows "row_bytes es m' i = row_bytes es m i"
proof -
  have "i * es = (i - d) * es + d * es" using assms(2) by (simp flip: add_mult_distrib)
  then have "drop (i * es) m' = drop ((i - d) * es) (drop (d * es) m')"
    and "drop (i * es) m = drop ((i - d) * es) (drop (d * es) m)"
    by (simp_all only: drop_drop)
  then show ?thesis using assms(1) by (simp add: row_bytes_def)
qed

lemma filter_deleted_split:
  assumes kd: "k \<le> d" and dN: "d < N" and gt: "\<forall>x\<in>set ds. d < x"
  shows "filter (\<lambda>i. i \<notin> set (d # ds)) [k..<N]
         = [k..<d] @ filter (\<lambda>i. i \<notin> set ds) [Suc d..<N]"
proof -
  have sp: "[k..<N] = [k..<d] @ d # [Suc d..<N]"
  proof -
    have "[k..<d + (N - d)] = [k..<d] @ [d..<d + (N - d)]" by (rule upt_add_eq_append [OF kd])
    moreover have "[d..<N] = d # [Suc d..<N]" using dN by (rule upt_conv_Cons)
    ultimately show ?thesis using dN by simp
  qed
  have a: "filter (\<lambda>i. i \<notin> set (d # ds)) [k..<d] = [k..<d]"
    using gt by (auto simp: filter_id_conv)
  have b: "filter (\<lambda>i. i \<notin> set (d # ds)) [Suc d..<N] = filter (\<lambda>i. i \<notin> set ds) [Suc d..<N]"
    by (rule filter_cong) auto
  show ?thesis unfolding sp using a b by simp
qed

lemma vacuum_fixlen_loop_run:
  assumes "sorted_wrt (<) ds" and "\<forall>x\<in>set ds. k \<le> x \<and> x < N"
    and "f \<le> k" and "k \<le> N" and "N * es \<le> length m"
    and "int N < 2 ^ 63" and "int (length m) < 2 ^ 63"
  shows "\<exists>kk m'. vacuum_fixlen_loop es N ds (int k, int f, int (f * es), m)
                   = Some (kk, int (f + (N - k - length ds)),
                           int ((f + (N - k - length ds)) * es), m')
               \<and> length m' = length m
               \<and> take ((f + (N - k - length ds)) * es) m'
                 = take (f * es) m
                   @ concat (map (row_bytes es m) (filter (\<lambda>i. i \<notin> set ds) [k..<N]))"
  using assms
proof (induction ds arbitrary: k f m)
  case Nil
  note mv = moved_block [OF Nil.prems(3) Nil.prems(4) Nil.prems(5)]
  have run: "vacuum_fixlen_step es N (int k, int f, int (f * es), m)
             = Some (s64 (u64 (int N + 1)), int (f + (N - k)), int ((f + (N - k)) * es),
                 (if k < N \<and> f \<noteq> k
                  then take (f * es) m @ take ((N - k) * es) (drop (k * es) m)
                       @ drop ((f + (N - k)) * es) m
                  else m))"
    by (rule vacuum_fixlen_step_run [OF Nil.prems(3) Nil.prems(4) Nil.prems(5) Nil.prems(6) Nil.prems(7)])
  have rows: "concat (map (row_bytes es m) [k..<N]) = take ((N - k) * es) (drop (k * es) m)"
    by (rule row_bytes_concat [OF Nil.prems(5) Nil.prems(4)])
  show ?case using run mv(1) mv(2) rows by simp
next
  case (Cons d ds)
  have kd: "k \<le> d" and dN: "d < N" using Cons.prems(2) by simp_all
  have gt: "\<forall>x\<in>set ds. d < x" using Cons.prems(1) by simp
  have srt: "sorted_wrt (<) ds" using Cons.prems(1) by simp
  have dl: "d * es \<le> length m"
  proof -
    have "d * es \<le> N * es" using dN by (intro mult_le_mono1) simp
    then show ?thesis using Cons.prems(5) by linarith
  qed
  have d63: "int d < 2 ^ 63" using dN Cons.prems(6) by linarith
  define m1 where "m1 = (if k < d \<and> f \<noteq> k
                  then take (f * es) m @ take ((d - k) * es) (drop (k * es) m)
                       @ drop ((f + (d - k)) * es) m
                  else m)"
  note mv = moved_block [OF Cons.prems(3) kd dl, folded m1_def]
  have keep': "s64 (u64 (int d + 1)) = int (Suc d)"
  proof -
    have "int d + 1 < 2 ^ 63" using dN Cons.prems(6) by linarith
    then have "s64 (u64 (int d + 1)) = int d + 1" by (intro s64_u64_id) simp_all
    then show ?thesis by simp
  qed
  have run: "vacuum_fixlen_step es d (int k, int f, int (f * es), m)
             = Some (int (Suc d), int (f + (d - k)), int ((f + (d - k)) * es), m1)"
    using vacuum_fixlen_step_run [OF Cons.prems(3) kd dl d63 Cons.prems(7)]
    unfolding m1_def keep' .
  have p2: "\<forall>x\<in>set ds. Suc d \<le> x \<and> x < N" using gt Cons.prems(2) by auto
  have p3: "f + (d - k) \<le> Suc d" using Cons.prems(3) kd by linarith
  have p4: "Suc d \<le> N" using dN by simp
  have p5: "N * es \<le> length m1" using mv(1) Cons.prems(5) by simp
  have p7: "int (length m1) < 2 ^ 63" using mv(1) Cons.prems(7) by simp
  from Cons.IH [OF srt p2 p3 p4 p5 Cons.prems(6) p7]
  obtain kk m' where
    res: "vacuum_fixlen_loop es N ds (int (Suc d), int (f + (d - k)), int ((f + (d - k)) * es), m1)
          = Some (kk, int (f + (d - k) + (N - Suc d - length ds)),
                  int ((f + (d - k) + (N - Suc d - length ds)) * es), m')"
    and len: "length m' = length m1"
    and tk: "take ((f + (d - k) + (N - Suc d - length ds)) * es) m'
             = take ((f + (d - k)) * es) m1
               @ concat (map (row_bytes es m1) (filter (\<lambda>i. i \<notin> set ds) [Suc d..<N]))"
    by blast
  have cnt: "length ds \<le> N - Suc d" by (rule strict_sorted_length_le [OF srt p2])
  have fill: "f + (d - k) + (N - Suc d - length ds) = f + (N - k - length (d # ds))"
    using cnt kd dN by simp
  have rows1: "map (row_bytes es m1) (filter (\<lambda>i. i \<notin> set ds) [Suc d..<N])
               = map (row_bytes es m) (filter (\<lambda>i. i \<notin> set ds) [Suc d..<N])"
    by (rule map_cong [OF refl]) (auto intro: row_bytes_drop_eq [OF mv(3)])
  have rowsk: "concat (map (row_bytes es m) [k..<d]) = take ((d - k) * es) (drop (k * es) m)"
    by (rule row_bytes_concat [OF dl kd])
  have "take ((f + (N - k - length (d # ds))) * es) m'
        = take (f * es) m
          @ concat (map (row_bytes es m) (filter (\<lambda>i. i \<notin> set (d # ds)) [k..<N]))"
    unfolding fill [symmetric] tk mv(2) rows1 filter_deleted_split [OF kd dN gt]
    by (simp add: rowsk)
  moreover have "vacuum_fixlen_loop es N (d # ds) (int k, int f, int (f * es), m)
        = Some (kk, int (f + (N - k - length (d # ds))),
                int ((f + (N - k - length (d # ds))) * es), m')"
    unfolding fill [symmetric] using run res by simp
  moreover have "length m' = length m" using len mv(1) by simp
  ultimately show ?case by blast
qed

lemma vacuum_fixlen_rows_run:
  assumes ok: "vacuum_offsets_ok N D" and sz: "N * es \<le> length m"
    and n63: "int N < 2 ^ 63" and l63: "int (length m) < 2 ^ 63"
  shows "\<exists>m'. vacuum_fixlen_rows es N D m = Some (m', (N - length D) * es)
              \<and> length m' = length m
              \<and> take ((N - length D) * es) m' = surviving_rows es N D m"
proof -
  have srt: "sorted_wrt (<) D" and rng: "\<forall>x\<in>set D. 0 \<le> x \<and> x < N"
    using ok by (simp_all add: vacuum_offsets_ok_def list_all_iff)
  from vacuum_fixlen_loop_run [OF srt rng _ _ sz n63 l63, of 0]
  obtain kk m' where
    run: "vacuum_fixlen_loop es N D (0, 0, 0, m)
          = Some (kk, int (N - length D), int ((N - length D) * es), m')"
    and len: "length m' = length m"
    and tk: "take ((N - length D) * es) m'
             = concat (map (row_bytes es m) (filter (\<lambda>i. i \<notin> set D) [0..<N]))"
    by auto
  have "vacuum_fixlen_rows es N D m = Some (m', (N - length D) * es)"
    unfolding vacuum_fixlen_rows_def run by (simp flip: of_nat_mult)
  then show ?thesis using len tk by (simp add: surviving_rows_def)
qed

lemma upt_5: "[0..<5] = [0, 1, 2, 3, 4]"
  by (simp add: upt_rec)

lemma fixlen_vacuum_bigint_scenario:
  assumes "length A = 8" "length B = 8" "length C = 8" "length D = 8" "length E = 8"
  shows "\<exists>m'. vacuum_fixlen_rows 8 5 [1, 3] (A @ B @ C @ D @ E) = Some (m', 24)
              \<and> take 24 m' = A @ C @ E"
proof -
  let ?m = "A @ B @ C @ D @ E"
  have ok: "vacuum_offsets_ok 5 [1, 3]" by (simp add: vacuum_offsets_ok_def)
  have sz: "5 * 8 \<le> length ?m" using assms by simp
  have l63: "int (length ?m) < 2 ^ 63" using assms by simp
  have sv: "surviving_rows 8 5 [1, 3] ?m = A @ C @ E"
    using assms by (simp add: surviving_rows_def row_bytes_def upt_5)
  have n63: "int 5 < 2 ^ 63" by simp
  have c: "(5 - length [1, 3 :: nat]) * 8 = 24" by simp
  from vacuum_fixlen_rows_run [OF ok sz n63 l63] show ?thesis
    unfolding c sv by (elim exE conjE) (intro exI conjI; assumption)
qed

lemma map_of_omap_put: "map_of (omap_put k v xs) k = Some v"
  by (induction xs) auto

lemma get_buffer_set_buffer: "get_buffer (set_buffer chunk b w) chunk = b"
  by (simp add: get_buffer_def set_buffer_def)

lemma roll_set_buffer: "updel_roll (set_buffer chunk b w) = updel_roll w"
  by (simp add: set_buffer_def)

lemma set_chunk_metadata_buffer:
  "data_buffers (set_chunk_metadata cat fragment chunk k w) = data_buffers w"
  by (simp add: set_chunk_metadata_def Let_def mark_dirty_def set_shadow_def install_snapshot_def)

lemma set_chunk_metadata_shadow:
  "numElements (metadata_at (shadow_of (set_chunk_metadata cat fragment chunk k w)
        (table_ptr cat (cd_tableId (column_desc chunk)), fragment))
      (columnId (column_desc chunk))) = k
   \<and> numBytes (metadata_at (shadow_of (set_chunk_metadata cat fragment chunk k w)
        (table_ptr cat (cd_tableId (column_desc chunk)), fragment))
      (columnId (column_desc chunk))) = buf_size (get_buffer w chunk)"
  by (simp add: set_chunk_metadata_def Let_def mark_dirty_def set_shadow_def shadow_of_def
      map_of_omap_put metadata_at_def get_buffer_def install_snapshot_def)

lemma fixlen_stats_loop_keeps:
  "mem (get_buffer (fst (snd (fixlen_stats_loop X ct chunk es ci n daddr st))) chunk)
     = mem (get_buffer (fst st) chunk)
   \<and> buf_size (get_buffer (fst (snd (fixlen_stats_loop X ct chunk es ci n daddr st))) chunk)
     = buf_size (get_buffer (fst st) chunk)
   \<and> is_updated (get_buffer (fst (snd (fixlen_stats_loop X ct chunk es ci n daddr st))) chunk)
     = is_updated (get_buffer (fst st) chunk)
   \<and> num_elems (encoder (get_buffer (fst (snd (fixlen_stats_loop X ct chunk es ci n daddr st))) chunk))
     = num_elems (encoder (get_buffer (fst st) chunk))
   \<and> updel_roll (fst (snd (fixlen_stats_loop X ct chunk es ci n daddr st)))
     = updel_roll (fst st)"
proof (induction X ct chunk es ci n daddr st rule: fixlen_stats_loop.induct)
  case (1 X col_type chunk element_size ci daddr st)
  show ?case by simp
next
  case (2 X col_type chunk element_size ci n daddr st)
  define b where "b = (get_buffer (fst st) chunk)
        \<lparr>encoder := updateMetadata (encoder (get_buffer (fst st) chunk)) daddr\<rparr>"
  show ?case
  proof (cases "is_fixlen_array col_type")
    case True
    show ?thesis
    proof (cases "is_FixedLengthArrayNoneEncoder (encoder (get_buffer (fst st) chunk))")
      case e: True
      have eq: "fixlen_stats_loop X col_type chunk element_size ci (Suc n) daddr st
                = fixlen_stats_loop X col_type chunk element_size ci n (daddr + element_size)
                    (set_buffer chunk b (fst st), snd st)"
        using True e by (simp add: Let_def b_def)
      from "2.IH"(1) [OF refl refl refl True e]
      show ?thesis unfolding eq b_def [symmetric]
        by (simp add: get_buffer_set_buffer roll_set_buffer b_def updateMetadata_def)
    next
      case e: False
      then show ?thesis using True by (simp add: Let_def)
    qed
  next
    case False
    show ?thesis
    proof (cases "is_fp col_type")
      case f: True
      from "2.IH"(2) [OF refl refl refl False f] show ?thesis
        using False f by (simp add: Let_def)
    next
      case f: False
      from "2.IH"(3) [OF refl refl refl False f] show ?thesis
        using False f by (simp add: Let_def)
    qed
  qed
qed

lemma compact_nrows_to_keep_id:
  "length D \<le> N \<Longrightarrow> int N < 2 ^ 63 \<Longrightarrow> compact_nrows_to_keep N D = N - length D"
proof -
  assume a: "length D \<le> N" "int N < 2 ^ 63"
  have p: "(2::int) ^ 63 \<le> 2 ^ 64" by simp
  have "0 \<le> int N - int (length D)" "int N - int (length D) < 2 ^ 64" using a p by linarith+
  then have "u64 (int N - int (length D)) = int N - int (length D)" by (rule u64_id)
  then show ?thesis using a by (simp add: compact_nrows_to_keep_def)
qed

lemma fixlen_vacuum_run:
  assumes ok: "vacuum_offsets_ok N D" and sz: "N * es \<le> length m"
    and n63: "int N < 2 ^ 63" and l63: "int (length m) < 2 ^ 63"
    and N: "N = physicalNumTuples (fragment_heap w fragment)"
    and es: "es = vacuum_element_size (columnType (column_desc chunk))"
    and m: "m = mem (get_buffer w chunk)"
    and w': "w' = fst (snd (fixlen_vacuum X cat fragment chunk D (compact_nrows_to_keep N D) ci
                              (w, ts)))"
    and key: "key = (table_ptr cat (cd_tableId (column_desc chunk)), fragment)"
  shows "\<exists>m'. vacuum_fixlen_rows es N D m = Some (m', (N - length D) * es)
              \<and> length m' = length m
              \<and> take ((N - length D) * es) m' = surviving_rows es N D m
              \<and> mem (get_buffer w' chunk) = m'
              \<and> buf_size (get_buffer w' chunk) = (N - length D) * es
              \<and> num_elems (encoder (get_buffer w' chunk)) = N - length D
              \<and> is_updated (get_buffer w' chunk)
              \<and> numElements (metadata_at (shadow_of w' key) (columnId (column_desc chunk)))
                  = N - length D
              \<and> numBytes (metadata_at (shadow_of w' key) (columnId (column_desc chunk)))
                  = (N - length D) * es"
proof -
  from vacuum_fixlen_rows_run [OF ok sz n63 l63] obtain m' where
    run: "vacuum_fixlen_rows es N D m = Some (m', (N - length D) * es)"
    and len: "length m' = length m"
    and tk: "take ((N - length D) * es) m' = surviving_rows es N D m"
    by (elim exE conjE)
  have srt: "sorted_wrt (<) D" and rng: "\<forall>x\<in>set D. x < N"
    using ok by (simp_all add: vacuum_offsets_ok_def list_all_iff)
  have "length D \<le> N - 0" by (rule strict_sorted_length_le [OF srt]) (use rng in simp)
  then have le: "length D \<le> N" by simp
  have k: "compact_nrows_to_keep N D = N - length D" using le n63 by (rule compact_nrows_to_keep_id)
  define b where "b = setUpdated (setSize ((get_buffer w chunk)\<lparr>mem := m',
                    encoder := setNumElems (encoder (get_buffer w chunk)) (N - length D)\<rparr>)
                  ((N - length D) * es))"
  define w1 where "w1 = set_chunk_metadata cat fragment chunk (N - length D) (set_buffer chunk b w)"
  have fv: "fixlen_vacuum X cat fragment chunk D (compact_nrows_to_keep N D) ci (w, ts)
            = fixlen_stats_loop X (columnType (column_desc chunk)) chunk es ci (N - length D) 0
                (w1, ts)"
    unfolding fixlen_vacuum_def Let_def k
    using run by (simp add: N [symmetric] es [symmetric] m [symmetric] w1_def b_def)
  have b1: "get_buffer w1 chunk = b"
    by (simp add: w1_def get_buffer_def set_chunk_metadata_buffer set_buffer_def)
  note keep = fixlen_stats_loop_keeps [of X "columnType (column_desc chunk)" chunk es ci
      "N - length D" 0 "(w1, ts)", folded fv, folded w', simplified]
  have sh: "shadow_of w' key = shadow_of w1 key"
    using keep by (simp add: shadow_of_def)
  have bs: "buf_size (get_buffer (set_buffer chunk b w) chunk) = (N - length D) * es"
    by (simp add: get_buffer_set_buffer b_def setUpdated_def setSize_def)
  have c4: "mem (get_buffer w' chunk) = m'"
    using keep by (simp add: b1 b_def setUpdated_def setSize_def)
  have c5: "buf_size (get_buffer w' chunk) = (N - length D) * es"
    using keep by (simp add: b1 b_def setUpdated_def setSize_def)
  have c6: "num_elems (encoder (get_buffer w' chunk)) = N - length D"
    using keep by (simp add: b1 b_def setUpdated_def setSize_def setNumElems_def)
  have c7: "is_updated (get_buffer w' chunk)"
    using keep by (simp add: b1 b_def setUpdated_def setSize_def)
  have c8: "numElements (metadata_at (shadow_of w' key) (columnId (column_desc chunk)))
                  = N - length D"
    by (subst sh) (unfold key w1_def, rule set_chunk_metadata_shadow [THEN conjunct1])
  have c9: "numBytes (metadata_at (shadow_of w' key) (columnId (column_desc chunk)))
                  = (N - length D) * es"
    by (subst sh) (unfold key w1_def, simp add: set_chunk_metadata_shadow [THEN conjunct2] bs)
  show ?thesis
    apply (intro exI conjI)
            apply (rule run)
           apply (rule len)
          apply (rule tk)
         apply (rule c4)
        apply (rule c5)
       apply (rule c6)
      apply (rule c7)
     apply (rule c8)
    apply (rule c9)
    done
qed

text \<open>
  C1: for a fragment of \<open>N\<close> rows, an element size \<open>es\<close> and a strictly increasing list
  \<open>D\<close> of deleted offsets below \<open>N\<close>, vacuum_fixlen_rows returns without leaving the
  buffer, the first \<open>(N - |D|) * es\<close> bytes of the rewritten buffer are the bytes of
  the surviving rows in their original order, and the returned count is
  \<open>(N - |D|) * es\<close>. The closure \<^verbatim>\<open>fixlen_vacuum\<close> of \<^verbatim>\<open>compactRows\<close>, called with
  \<^verbatim>\<open>nrows_to_keep\<close> as \<^verbatim>\<open>compactRows\<close> computes it, leaves the chunk's buffer with that
  memory, with the size \<open>(N - |D|) * es\<close> (\<^verbatim>\<open>setSize\<close>), with \<open>N - |D|\<close> elements in its
  encoder (\<^verbatim>\<open>setNumElems\<close>) and marked as updated, and the shadow metadata of the column
  with \<open>numElements = N - |D|\<close> and \<open>numBytes = (N - |D|) * es\<close>; this holds whether or
  not the statistics loop that follows fails. The row count and the buffer length are
  below \<open>2^63\<close>, as on every 64-bit machine, so that no conversion between \<^verbatim>\<open>uint64_t\<close>
  and \<^verbatim>\<open>int64_t\<close> changes a value. The witness is the scenario of the specification:
  five eight-byte rows, deleted offsets 1 and 3, result rows 0, 2, 4 with three elements
  in 24 bytes.
\<close>

theorem vacuum_fixlen_rows_compacts:
  assumes "vacuum_offsets_ok N D" and "N * es \<le> length m"
    and "int N < 2 ^ 63" and "int (length m) < 2 ^ 63"
    and "N = physicalNumTuples (fragment_heap w fragment)"
    and "es = vacuum_element_size (columnType (column_desc chunk))"
    and "m = mem (get_buffer w chunk)"
    and "w' = fst (snd (fixlen_vacuum X cat fragment chunk D (compact_nrows_to_keep N D) ci
                          (w, ts)))"
    and "key = (table_ptr cat (cd_tableId (column_desc chunk)), fragment)"
  shows "\<exists>m'. vacuum_fixlen_rows es N D m = Some (m', (N - length D) * es)
              \<and> length m' = length m
              \<and> take ((N - length D) * es) m' = surviving_rows es N D m
              \<and> mem (get_buffer w' chunk) = m'
              \<and> buf_size (get_buffer w' chunk) = (N - length D) * es
              \<and> num_elems (encoder (get_buffer w' chunk)) = N - length D
              \<and> is_updated (get_buffer w' chunk)
              \<and> numElements (metadata_at (shadow_of w' key) (columnId (column_desc chunk)))
                  = N - length D
              \<and> numBytes (metadata_at (shadow_of w' key) (columnId (column_desc chunk)))
                  = (N - length D) * es"
  using assms by (rule fixlen_vacuum_run)

theorem vacuum_fixlen_rows_compacts_witness:
  "vacuum_offsets_ok 5 [1, 3]
   \<and> (\<exists>w'. w' = fst (snd (fixlen_vacuum example_accessors
                              (example_catalog (example_type FamInteger kENCODING_NONE 8)) 0
                              (example_chunk (example_type FamInteger kENCODING_NONE 8)) [1, 3]
                              (compact_nrows_to_keep 5 [1, 3]) 0
                              (example_vacuum_world, compactRows_init 1)))
          \<and> vacuum_fixlen_rows 8 5 [1, 3] example_bigint_rows
              = Some (mem (get_buffer w' (example_chunk (example_type FamInteger kENCODING_NONE 8))),
                      24)
          \<and> take 24 (mem (get_buffer w'
                              (example_chunk (example_type FamInteger kENCODING_NONE 8))))
              = [10, 0, 0, 0, 0, 0, 0, 0] @ [30, 0, 0, 0, 0, 0, 0, 0] @ [50, 0, 0, 0, 0, 0, 0, 0]
          \<and> buf_size (get_buffer w' (example_chunk (example_type FamInteger kENCODING_NONE 8)))
              = 24
          \<and> num_elems (encoder (get_buffer w'
                                     (example_chunk (example_type FamInteger kENCODING_NONE 8))))
              = 3
          \<and> numElements (metadata_at (shadow_of w' (Some 1, 0)) 1) = 3
          \<and> numBytes (metadata_at (shadow_of w' (Some 1, 0)) 1) = 24)"
proof -
  let ?t = "example_type FamInteger kENCODING_NONE 8"
  let ?chunk = "example_chunk ?t"
  define w' where "w' = fst (snd (fixlen_vacuum example_accessors (example_catalog ?t) 0 ?chunk
                              [1, 3] (compact_nrows_to_keep 5 [1, 3]) 0
                              (example_vacuum_world, compactRows_init 1)))"
  have ok: "vacuum_offsets_ok 5 [1, 3]" by (simp add: vacuum_offsets_ok_def)
  have sz: "5 * 8 \<le> length example_bigint_rows" by (simp add: example_bigint_rows_def)
  have l63: "int (length example_bigint_rows) < 2 ^ 63" by (simp add: example_bigint_rows_def)
  have n63: "int 5 < 2 ^ 63" by simp
  have N: "5 = physicalNumTuples (fragment_heap example_vacuum_world 0)"
    by (simp add: example_vacuum_world_def)
  have es: "8 = vacuum_element_size (columnType (column_desc ?chunk))"
    by (simp add: vacuum_element_size_def example_chunk_def example_column_def example_type_def)
  have m: "example_bigint_rows = mem (get_buffer example_vacuum_world ?chunk)"
    by (simp add: example_vacuum_world_def example_world_def example_buffer_def get_buffer_def)
  have key: "(Some 1, 0) = (table_ptr (example_catalog ?t) (cd_tableId (column_desc ?chunk)), 0)"
    by (simp add: table_ptr_def example_catalog_def example_chunk_def example_column_def
        example_table_def)
  have sv: "surviving_rows 8 5 [1, 3] example_bigint_rows
            = [10, 0, 0, 0, 0, 0, 0, 0] @ [30, 0, 0, 0, 0, 0, 0, 0] @ [50, 0, 0, 0, 0, 0, 0, 0]"
    by (simp add: surviving_rows_def row_bytes_def upt_5 example_bigint_rows_def)
  have c: "5 - length [1, 3 :: nat] = 3" "(3 :: nat) * 8 = 24" by simp_all
  have cid: "columnId (column_desc ?chunk) = 1"
    by (simp add: example_chunk_def example_column_def)
  from vacuum_fixlen_rows_compacts [OF ok sz n63 l63 N es m w'_def key]
  obtain m' where
    r: "vacuum_fixlen_rows 8 5 [1, 3] example_bigint_rows = Some (m', 24)"
    and tk: "take 24 m' = [10, 0, 0, 0, 0, 0, 0, 0] @ [30, 0, 0, 0, 0, 0, 0, 0]
                          @ [50, 0, 0, 0, 0, 0, 0, 0]"
    and mm: "mem (get_buffer w' ?chunk) = m'"
    and bs: "buf_size (get_buffer w' ?chunk) = 24"
    and ne: "num_elems (encoder (get_buffer w' ?chunk)) = 3"
    and sne: "numElements (metadata_at (shadow_of w' (Some 1, 0)) 1) = 3"
    and snb: "numBytes (metadata_at (shadow_of w' (Some 1, 0)) 1) = 24"
    unfolding c sv cid by (elim exE conjE)
  have "\<exists>w''. w'' = w'
          \<and> vacuum_fixlen_rows 8 5 [1, 3] example_bigint_rows
              = Some (mem (get_buffer w'' ?chunk), 24)
          \<and> take 24 (mem (get_buffer w'' ?chunk))
              = [10, 0, 0, 0, 0, 0, 0, 0] @ [30, 0, 0, 0, 0, 0, 0, 0] @ [50, 0, 0, 0, 0, 0, 0, 0]
          \<and> buf_size (get_buffer w'' ?chunk) = 24
          \<and> num_elems (encoder (get_buffer w'' ?chunk)) = 3
          \<and> numElements (metadata_at (shadow_of w'' (Some 1, 0)) 1) = 3
          \<and> numBytes (metadata_at (shadow_of w'' (Some 1, 0)) 1) = 24"
    apply (rule exI [of _ w'])
    apply (intro conjI)
          apply (rule refl)
         apply (unfold mm, rule r)
        apply (rule tk)
       apply (rule bs)
      apply (rule ne)
     apply (rule sne)
    apply (rule snb)
    done
  then show ?thesis unfolding w'_def using ok by (intro conjI)
qed

section \<open>Verification: variable-length vacuum\<close>

lemma s32_id: "- (2 ^ 31) \<le> x \<Longrightarrow> x < 2 ^ 31 \<Longrightarrow> s32 x = x"
  by (simp add: s32_def)

lemma read_index_in: "i < length ia \<Longrightarrow> read_index ia (int i) = Some (ia ! i)"
  by (simp add: read_index_def)

lemma rebase_loop_run:
  assumes "j \<le> m" and "k + m \<le> length ia"
  shows "rebase_loop (int k) b lo [j..<m] ia
         = Some (take (k + j) ia
                 @ map (\<lambda>x. s32 (u64 (b + s32 (x - lo)))) (take (m - j) (drop (k + j) ia))
                 @ drop (k + m) ia)"
  using assms
proof (induction "m - j" arbitrary: j ia)
  case 0
  then have "j = m" by simp
  then show ?case by simp
next
  case (Suc n)
  then have jm: "j < m" and n: "n = m - Suc j" by simp_all
  let ?g = "\<lambda>x. s32 (u64 (b + s32 (x - lo)))"
  let ?ia = "ia[k + j := ?g (ia ! (k + j))]"
  have kj: "k + j < length ia" using jm Suc.prems by simp
  have up: "[j..<m] = j # [Suc j..<m]" using jm by (simp add: upt_conv_Cons)
  have rd: "read_index ia (int k + int j) = Some (ia ! (k + j))"
    using read_index_in [OF kj] by simp
  have nt: "nat (int k + int j) = k + j" by simp
  have len: "k + m \<le> length ?ia" using Suc.prems by simp
  have ih: "rebase_loop (int k) b lo [Suc j..<m] ?ia
            = Some (take (k + Suc j) ?ia @ map ?g (take (m - Suc j) (drop (k + Suc j) ?ia))
                    @ drop (k + m) ?ia)"
    by (rule Suc.hyps(1) [OF n _ len]) (use jm in simp)
  have t1: "take (k + Suc j) ?ia = take (k + j) ia @ [?g (ia ! (k + j))]"
    using kj by (simp add: take_Suc_conv_app_nth)
  have t2: "drop (k + Suc j) ?ia = drop (k + Suc j) ia" by simp
  have t3: "drop (k + m) ?ia = drop (k + m) ia" using jm by simp
  have t4: "take (m - j) (drop (k + j) ia)
            = ia ! (k + j) # take (m - Suc j) (drop (k + Suc j) ia)"
  proof -
    have "drop (k + j) ia = ia ! (k + j) # drop (Suc (k + j)) ia"
      using kj by (simp add: Cons_nth_drop_Suc)
    moreover have "m - j = Suc (m - Suc j)" using jm by simp
    ultimately show ?thesis by simp
  qed
  show ?case unfolding up rebase_loop.simps rd nt option.case ih t1 t2 t3 t4 by simp
qed

lemma vacuum_varlen_step_run:
  assumes fk: "f \<le> k" and kd: "k \<le> d" and dN: "d \<le> N" and Nl: "N < length ia"
    and mono: "\<forall>i j. k \<le> i \<and> i \<le> j \<and> j \<le> N \<longrightarrow> ia ! i \<le> ia ! j"
    and nn: "0 \<le> ia ! k" and top: "ia ! N = int sz"
    and szl: "sz \<le> length data" and sz31: "int sz < 2 ^ 31"
    and bk: "int b \<le> ia ! k" and fkb: "f = k \<longrightarrow> int b = ia ! k"
    and last: "is_last \<longrightarrow> d = N" and N63: "int N < 2 ^ 63"
  shows "\<exists>kk nfix' data' ia'.
           vacuum_varlen_step sz is_last d (int k, int f, nfix, int b, data, ia)
             = Some (kk, int (f + (d - k)), nfix',
                     int (b + nat (ia ! d - ia ! k)), data', ia')
         \<and> (d < N \<longrightarrow> kk = int (Suc d))
         \<and> length data' = length data \<and> length ia' = length ia
         \<and> take (b + nat (ia ! d - ia ! k)) data'
             = take b data @ take (nat (ia ! d - ia ! k)) (drop (nat (ia ! k)) data)
         \<and> drop (nat (ia ! d)) data' = drop (nat (ia ! d)) data
         \<and> take (f + (d - k)) ia'
             = take f ia @ map (\<lambda>x. int b + (x - ia ! k)) (take (d - k) (drop k ia))
         \<and> drop d ia' = drop d ia"
proof -
  define m where "m = d - k"
  define lo where "lo = nat (ia ! k)"
  define hi where "hi = nat (ia ! d)"
  define n where "n = hi - lo"
  have lo_hi: "ia ! k \<le> ia ! d" using mono kd dN by blast
  have hi_sz: "ia ! d \<le> int sz" using mono kd dN top by (metis le_refl order_trans)
  have lo_i: "ia ! k = int lo" using nn by (simp add: lo_def)
  have hi_i: "ia ! d = int hi" using nn lo_hi by (simp add: hi_def)
  have lohi: "lo \<le> hi" using lo_hi lo_i hi_i by simp
  have hisz: "hi \<le> sz" using hi_sz hi_i by simp
  have blo: "b \<le> lo" using bk lo_i by simp
  have n_eq: "nat (ia ! d - ia ! k) = n" unfolding n_def lo_i hi_i by simp
  have p31: "(2::int) ^ 31 \<le> 2 ^ 64" by simp
  have kk: "d < N \<longrightarrow> s64 (u64 (int d + 1)) = int (Suc d)"
  proof
    assume "d < N"
    then have "int d + 1 < 2 ^ 63" using N63 by linarith
    then have "s64 (u64 (int d + 1)) = int d + 1" by (intro s64_u64_id) simp_all
    then show "s64 (u64 (int d + 1)) = int (Suc d)" by simp
  qed
  have d63: "int d < 2 ^ 63" using dN N63 by linarith
  have nk: "s64 (u64 (int d - int k)) = int m"
    using kd d63 by (simp add: s64_u64_id of_nat_diff m_def)
  have hi_read: "(if is_last then Some (int sz) else read_index ia (int d)) = Some (int hi)"
  proof (cases is_last)
    case True
    then show ?thesis using last top hi_i by simp
  next
    case False
    then show ?thesis using read_index_in [of d ia] dN Nl hi_i by simp
  qed
  have lo_read: "read_index ia (int k) = Some (int lo)"
    using read_index_in [of k ia] kd dN Nl lo_i by simp
  have nbytes: "u64 (int hi - int lo) = int n"
    using lohi hisz sz31 p31 by (simp add: n_def u64_id of_nat_diff)
  have fill: "s64 (int f + int m) = int (f + m)"
  proof -
    have "int (f + m) < 2 ^ 63" using fk kd d63 by (simp add: m_def)
    then show ?thesis using s64_id [of "int (f + m)"] by simp
  qed
  have nvar: "u64 (int b + int n) = int (b + n)"
  proof -
    have "int (b + n) < 2 ^ 64" using blo lohi hisz sz31 p31 by (simp add: n_def)
    then show ?thesis using u64_id [of "int (b + n)"] by simp
  qed
  have ulo: "u64 (int lo) = int lo" using lohi hisz sz31 p31 by (intro u64_id) simp_all
  show ?thesis
  proof (cases "k < d")
    case False
    then have dk: "d = k" using kd by simp
    then have m0: "m = 0" and n0: "n = 0" by (simp_all add: m_def n_def hi_def lo_def)
    have "vacuum_varlen_step sz is_last d (int k, int f, nfix, int b, data, ia)
          = Some (s64 (u64 (int d + 1)), int f, nfix, int b, data, ia)"
      unfolding vacuum_varlen_step_def Let_def prod.case nk m0 by simp
    then have st: "vacuum_varlen_step sz is_last d (int k, int f, nfix, int b, data, ia)
          = Some (s64 (u64 (int d + 1)), int (f + m), nfix, int (b + n), data, ia)"
      unfolding m0 n0 by simp
    have d1: "take (b + n) data = take b data @ take n (drop lo data)" unfolding n0 by simp
    have i1: "take (f + m) ia = take f ia @ map (\<lambda>x. int b + (x - ia ! k)) (take m (drop k ia))"
      unfolding m0 by simp
    show ?thesis unfolding n_eq m_def [symmetric] lo_def [symmetric] hi_def [symmetric]
      apply (intro exI conjI)
             apply (rule st)
            apply (rule kk)
           apply (rule refl)
          apply (rule refl)
         apply (rule d1)
        apply (rule refl)
       apply (rule i1)
      apply (rule refl)
      done
  next
    case True
    then have mpos: "0 < int m" by (simp add: m_def)
    have km: "k + m = d" using kd by (simp add: m_def)
    show ?thesis
    proof (cases "f = k")
      case True
      have beq: "b = lo" using fkb True lo_i by simp
      have st: "vacuum_varlen_step sz is_last d (int k, int f, nfix, int b, data, ia)
          = Some (s64 (u64 (int d + 1)), int (f + m), u64 (nfix + u64 (int m * 4)),
                  int (b + n), data, ia)"
        unfolding vacuum_varlen_step_def Let_def prod.case nk hi_read lo_read option.case
          nbytes fill nvar using mpos True by simp
      have d1: "take (b + n) data = take b data @ take n (drop lo data)"
        unfolding beq by (rule take_add)
      have i1: "take (f + m) ia = take f ia @ take m (drop k ia)"
        unfolding True by (rule take_add)
      have i2: "map (\<lambda>x. int b + (x - ia ! k)) (take m (drop k ia)) = take m (drop k ia)"
        unfolding lo_i beq by simp
      have i3: "take (f + m) ia = take f ia @ map (\<lambda>x. int b + (x - ia ! k)) (take m (drop k ia))"
        unfolding i1 i2 ..
      show ?thesis unfolding n_eq m_def [symmetric] lo_def [symmetric] hi_def [symmetric]
        apply (intro exI conjI)
               apply (rule st)
              apply (rule kk)
             apply (rule refl)
            apply (rule refl)
           apply (rule d1)
          apply (rule refl)
         apply (rule i3)
        apply (rule refl)
        done
    next
      case False
      define g where "g = (\<lambda>x. s32 (u64 (int b + s32 (x - int lo))))"
      define ia_r where "ia_r = take k ia @ map g (take m (drop k ia)) @ drop (k + m) ia"
      have kml: "k + m \<le> length ia" using km dN Nl by simp
      have rb: "rebase_loop (int k) (int b) (int lo) [0..<m] ia = Some ia_r"
        using rebase_loop_run [of 0 m k ia "int b" "int lo"] kml
        by (simp add: ia_r_def g_def)
      have src: "lo + n \<le> length data" using lohi hisz szl by (simp add: n_def)
      have dst: "b + n \<le> length data" using blo src by simp
      have mv: "memmove data b lo n = Some (take b data @ take n (drop lo data) @ drop (b + n) data)"
        using src dst by (simp add: memmove_def)
      have lr: "length ia_r = length ia" using kml by (simp add: ia_r_def)
      have fm: "f + m \<le> length ia" using fk kml by simp
      have mvi: "memmove ia_r f k m = Some (take f ia_r @ take m (drop k ia_r) @ drop (f + m) ia_r)"
        using kml fm lr by (simp add: memmove_def)
      have st: "vacuum_varlen_step sz is_last d (int k, int f, nfix, int b, data, ia)
          = Some (s64 (u64 (int d + 1)), int (f + m), u64 (nfix + u64 (int m * 4)),
                  int (b + n), take b data @ take n (drop lo data) @ drop (b + n) data,
                  take f ia_r @ take m (drop k ia_r) @ drop (f + m) ia_r)"
        unfolding vacuum_varlen_step_def Let_def prod.case nk hi_read lo_read option.case
          nbytes fill nvar ulo nat_int rb mv using mpos False mvi by simp
      note bd = block_move_facts [OF blo src]
      have cbn: "lo + n = hi" using lohi by (simp add: n_def)
      have gmap: "map g (take m (drop k ia)) = map (\<lambda>x. int b + (x - int lo)) (take m (drop k ia))"
      proof (rule map_cong [OF refl])
        fix x assume "x \<in> set (take m (drop k ia))"
        then obtain i where i: "i < m" and x: "x = ia ! (k + i)"
          using kml by (auto simp: in_set_conv_nth)
        have "ia ! k \<le> x" and "x \<le> ia ! d" using mono i km dN unfolding x by auto
        then have r1: "0 \<le> x - int lo" and r2: "x - int lo \<le> int n"
          unfolding lo_i hi_i n_def using lohi by simp_all
        have r3: "int n \<le> int sz" using hisz by (simp add: n_def)
        have s1: "s32 (x - int lo) = x - int lo" using r1 r2 r3 sz31 by (intro s32_id) simp_all
        have r4: "int b + (x - int lo) \<le> int sz" using blo r2 lohi hisz by (simp add: n_def)
        have s2: "u64 (int b + (x - int lo)) = int b + (x - int lo)"
          using r1 r4 sz31 p31 by (intro u64_id) simp_all
        have s3: "s32 (int b + (x - int lo)) = int b + (x - int lo)"
          using r1 r4 sz31 by (intro s32_id) simp_all
        show "g x = int b + (x - int lo)" unfolding g_def s1 s2 s3 ..
      qed
      have ac: "f \<le> k" by (rule fk)
      have tk_f: "take f ia_r = take f ia" using fk kml by (simp add: ia_r_def)
      have dk_r: "take m (drop k ia_r) = map g (take m (drop k ia))"
        using kml by (simp add: ia_r_def)
      have i1: "take (f + m) (take f ia_r @ take m (drop k ia_r) @ drop (f + m) ia_r)
                = take f ia @ map (\<lambda>x. int b + (x - int lo)) (take m (drop k ia))"
        using block_move_facts(2) [OF ac kml [unfolded lr [symmetric]]] tk_f dk_r gmap by simp
      have i2: "drop d (take f ia_r @ take m (drop k ia_r) @ drop (f + m) ia_r) = drop d ia"
      proof -
        have "drop (k + m) (take f ia_r @ take m (drop k ia_r) @ drop (f + m) ia_r)
              = drop (k + m) ia_r"
          by (rule block_move_facts(3) [OF ac kml [unfolded lr [symmetric]]])
        also have "\<dots> = drop (k + m) ia" using kml by (simp add: ia_r_def)
        finally show ?thesis unfolding km .
      qed
      have i3: "length (take f ia_r @ take m (drop k ia_r) @ drop (f + m) ia_r) = length ia"
        using block_move_facts(1) [OF ac kml [unfolded lr [symmetric]]] lr by simp
      have i1': "take (f + m) (take f ia_r @ take m (drop k ia_r) @ drop (f + m) ia_r)
                = take f ia @ map (\<lambda>x. int b + (x - ia ! k)) (take m (drop k ia))"
        unfolding i1 lo_i ..
      show ?thesis unfolding n_eq m_def [symmetric] lo_def [symmetric] hi_def [symmetric]
        apply (intro exI conjI)
               apply (rule st)
              apply (rule kk)
             apply (rule bd(1))
            apply (rule i3)
           apply (rule bd(2))
          apply (rule bd(3) [unfolded cbn])
         apply (rule i1')
        apply (rule i2)
        done
    qed
  qed
qed

lemma payload_concat:
  assumes mono: "\<forall>i j. k \<le> i \<and> i \<le> j \<and> j \<le> N \<longrightarrow> ia ! i \<le> ia ! j"
    and nn: "0 \<le> ia ! k" and kd: "k \<le> d" and dN: "d \<le> N"
  shows "concat (map (payload data ia) [k..<d])
         = take (nat (ia ! d - ia ! k)) (drop (nat (ia ! k)) data)"
  using kd dN
proof (induction d)
  case 0
  then show ?case by simp
next
  case (Suc d)
  show ?case
  proof (cases "k = Suc d")
    case True
    then show ?thesis by simp
  next
    case False
    then have kd: "k \<le> d" and dN: "d \<le> N" using Suc.prems by simp_all
    have a: "ia ! k \<le> ia ! d" using mono kd dN by blast
    have c: "ia ! d \<le> ia ! Suc d" using mono [rule_format, of d "Suc d"] kd Suc.prems by simp
    define lo a' c' where "lo = nat (ia ! k)" and "a' = nat (ia ! d - ia ! k)"
      and "c' = nat (ia ! Suc d - ia ! d)"
    have s: "nat (ia ! Suc d - ia ! k) = a' + c'" using a c by (simp add: a'_def c'_def)
    have la: "lo + a' = nat (ia ! d)" using a nn by (simp add: lo_def a'_def)
    have "drop a' (drop lo data) = drop (lo + a') data"
      unfolding drop_drop add.commute [of a' lo] ..
    then have "take (a' + c') (drop lo data) = take a' (drop lo data) @ take c' (drop (lo + a') data)"
      unfolding take_add by simp
    then have tk: "take (nat (ia ! Suc d - ia ! k)) (drop (nat (ia ! k)) data)
                   = take a' (drop lo data) @ payload data ia d"
      unfolding s la payload_def lo_def [symmetric] c'_def [symmetric] .
    have up: "[k..<Suc d] = [k..<d] @ [d]" using kd by simp
    show ?thesis unfolding up tk using Suc.IH [OF kd dN]
      by (simp add: a'_def lo_def)
  qed
qed

lemma row_len_sum:
  assumes mono: "\<forall>i j. k \<le> i \<and> i \<le> j \<and> j \<le> N \<longrightarrow> ia ! i \<le> ia ! j"
    and kd: "k \<le> d" and dN: "d \<le> N"
  shows "int (sum_list (map (row_len ia) [k..<d])) = ia ! d - ia ! k"
  using kd dN
proof (induction d)
  case 0
  then show ?case by simp
next
  case (Suc d)
  show ?case
  proof (cases "k = Suc d")
    case True
    then show ?thesis by simp
  next
    case False
    then have kd: "k \<le> d" and dN: "d \<le> N" using Suc.prems by simp_all
    have c: "ia ! d \<le> ia ! Suc d" using mono [rule_format, of d "Suc d"] kd Suc.prems by simp
    have up: "[k..<Suc d] = [k..<d] @ [d]" using kd by simp
    show ?thesis unfolding up using Suc.IH [OF kd dN] c by (simp add: row_len_def)
  qed
qed

lemma offsets_from_append:
  "offsets_from b (xs @ ys) = offsets_from b xs @ offsets_from (b + int (sum_list xs)) ys"
  by (induction xs arbitrary: b) (simp_all add: add.assoc)

lemma offsets_from_block:
  assumes mono: "\<forall>i j. k \<le> i \<and> i \<le> j \<and> j \<le> N \<longrightarrow> ia ! i \<le> ia ! j"
    and kd: "k \<le> d" and dN: "d \<le> N" and Nl: "N < length ia"
  shows "offsets_from b (map (row_len ia) [k..<d])
         = map (\<lambda>x. b + (x - ia ! k)) (take (d - k) (drop k ia))"
  using kd mono
proof (induction "d - k" arbitrary: k b)
  case 0
  then show ?case by simp
next
  case (Suc n)
  then have kd: "k < d" and n: "n = d - Suc k" by simp_all
  have kl: "k < length ia" using kd dN Nl by simp
  have c: "ia ! k \<le> ia ! Suc k" using Suc.prems(2) [rule_format, of k "Suc k"] kd dN by simp
  have mono': "\<forall>i j. Suc k \<le> i \<and> i \<le> j \<and> j \<le> N \<longrightarrow> ia ! i \<le> ia ! j"
  proof (intro allI impI)
    fix i j assume "Suc k \<le> i \<and> i \<le> j \<and> j \<le> N"
    then show "ia ! i \<le> ia ! j" using Suc.prems(2) [rule_format, of i j] by simp
  qed
  have up: "[k..<d] = k # [Suc k..<d]" using kd by (simp add: upt_conv_Cons)
  have tk: "take (d - k) (drop k ia) = ia ! k # take (d - Suc k) (drop (Suc k) ia)"
  proof -
    have "drop k ia = ia ! k # drop (Suc k) ia" using kl by (simp add: Cons_nth_drop_Suc)
    moreover have "d - k = Suc (d - Suc k)" using kd by simp
    ultimately show ?thesis by simp
  qed
  have rl: "int (row_len ia k) = ia ! Suc k - ia ! k" using c by (simp add: row_len_def)
  have ih: "offsets_from (b + int (row_len ia k)) (map (row_len ia) [Suc k..<d])
            = map (\<lambda>x. b + int (row_len ia k) + (x - ia ! Suc k)) (take (d - Suc k) (drop (Suc k) ia))"
    by (rule Suc.hyps(1) [OF n _ mono']) (use kd in simp)
  show ?case unfolding up tk using ih by (simp add: rl)
qed

lemma drop_eq_later:
  assumes "drop a xs = drop a ys" and "a \<le> c"
  shows "drop c xs = drop c ys"
proof -
  have "drop c xs = drop (c - a) (drop a xs)" and "drop c ys = drop (c - a) (drop a ys)"
    using assms(2) by simp_all
  then show ?thesis using assms(1) by simp
qed

lemma nth_eq_later:
  assumes "drop a xs = drop a ys" and "a \<le> i" and "length xs = length ys" and "i < length xs"
  shows "xs ! i = ys ! i"
proof -
  have "xs ! i = drop a xs ! (i - a)" using assms(2,4) by simp
  also have "\<dots> = drop a ys ! (i - a)" using assms(1) by simp
  also have "\<dots> = ys ! i" using assms(2,3,4) by simp
  finally show ?thesis .
qed

lemma vacuum_varlen_loop_run:
  assumes srt: "sorted_wrt (<) ds" and rng: "\<forall>x\<in>set ds. k \<le> x \<and> x < N"
    and fk: "f \<le> k" and kN: "k \<le> N" and Nl: "N < length ia"
    and mono: "\<forall>i j. k \<le> i \<and> i \<le> j \<and> j \<le> N \<longrightarrow> ia ! i \<le> ia ! j"
    and nn: "0 \<le> ia ! k" and top: "ia ! N = int sz"
    and szl: "sz \<le> length data" and sz31: "int sz < 2 ^ 31"
    and bk: "int b \<le> ia ! k" and fkb: "f = k \<longrightarrow> int b = ia ! k"
    and N63: "int N < 2 ^ 63"
  shows "\<exists>kk nfix' data' ia'.
           vacuum_varlen_loop sz N ds (int k, int f, nfix, int b, data, ia)
             = Some (kk, int (f + (N - k - length ds)), nfix',
                     int (b + sum_list (map (row_len ia) (filter (\<lambda>i. i \<notin> set ds) [k..<N]))),
                     data', ia')
         \<and> length data' = length data \<and> length ia' = length ia
         \<and> take (b + sum_list (map (row_len ia) (filter (\<lambda>i. i \<notin> set ds) [k..<N]))) data'
             = take b data
               @ concat (map (payload data ia) (filter (\<lambda>i. i \<notin> set ds) [k..<N]))
         \<and> take (f + (N - k - length ds)) ia'
             = take f ia
               @ offsets_from (int b) (map (row_len ia) (filter (\<lambda>i. i \<notin> set ds) [k..<N]))"
  using assms
proof (induction ds arbitrary: k f b nfix data ia)
  case Nil
  have n: "nat (ia ! N - ia ! k) = sum_list (map (row_len ia) [k..<N])"
    using row_len_sum [OF Nil.prems(6) Nil.prems(4) le_refl] by linarith
  from vacuum_varlen_step_run [OF Nil.prems(3) Nil.prems(4) le_refl Nil.prems(5) Nil.prems(6)
      Nil.prems(7) Nil.prems(8) Nil.prems(9) Nil.prems(10) Nil.prems(11) Nil.prems(12) _ Nil.prems(13),
      of True nfix]
  obtain kk nfix' data' ia' where
    st: "vacuum_varlen_step sz True N (int k, int f, nfix, int b, data, ia)
         = Some (kk, int (f + (N - k)), nfix', int (b + nat (ia ! N - ia ! k)), data', ia')"
    and ld: "length data' = length data" and li: "length ia' = length ia"
    and td: "take (b + nat (ia ! N - ia ! k)) data'
             = take b data @ take (nat (ia ! N - ia ! k)) (drop (nat (ia ! k)) data)"
    and ti: "take (f + (N - k)) ia'
             = take f ia @ map (\<lambda>x. int b + (x - ia ! k)) (take (N - k) (drop k ia))"
    by blast
  have pc: "concat (map (payload data ia) [k..<N])
            = take (nat (ia ! N - ia ! k)) (drop (nat (ia ! k)) data)"
    by (rule payload_concat [OF Nil.prems(6) Nil.prems(7) Nil.prems(4) le_refl])
  have ob: "offsets_from (int b) (map (row_len ia) [k..<N])
            = map (\<lambda>x. int b + (x - ia ! k)) (take (N - k) (drop k ia))"
    by (rule offsets_from_block [OF Nil.prems(6) Nil.prems(4) le_refl Nil.prems(5)])
  have flt: "filter (\<lambda>i. i \<notin> set []) [k..<N] = [k..<N]" by simp
  have e1: "N - k - length ([] :: nat list) = N - k" by simp
  show ?case unfolding vacuum_varlen_loop.simps flt e1 n [symmetric] pc ob
    apply (intro exI conjI)
        apply (rule st)
       apply (rule ld)
      apply (rule li)
     apply (rule td)
    apply (rule ti)
    done
next
  case (Cons d ds)
  have kd: "k \<le> d" and dN: "d < N" using Cons.prems(2) by simp_all
  have dN': "d \<le> N" using dN by simp
  have gt: "\<forall>x\<in>set ds. d < x" using Cons.prems(1) by simp
  have srt: "sorted_wrt (<) ds" using Cons.prems(1) by simp
  define n1 where "n1 = nat (ia ! d - ia ! k)"
  from vacuum_varlen_step_run [OF Cons.prems(3) kd dN' Cons.prems(5) Cons.prems(6)
      Cons.prems(7) Cons.prems(8) Cons.prems(9) Cons.prems(10) Cons.prems(11) Cons.prems(12) _ Cons.prems(13),
      of False nfix]
  obtain kk nfix1 data1 ia1 where
    st: "vacuum_varlen_step sz False d (int k, int f, nfix, int b, data, ia)
         = Some (kk, int (f + (d - k)), nfix1, int (b + n1), data1, ia1)"
    and kk: "d < N \<longrightarrow> kk = int (Suc d)"
    and ld: "length data1 = length data" and li: "length ia1 = length ia"
    and td: "take (b + n1) data1 = take b data @ take n1 (drop (nat (ia ! k)) data)"
    and dd: "drop (nat (ia ! d)) data1 = drop (nat (ia ! d)) data"
    and ti: "take (f + (d - k)) ia1
             = take f ia @ map (\<lambda>x. int b + (x - ia ! k)) (take (d - k) (drop k ia))"
    and di: "drop d ia1 = drop d ia"
    unfolding n1_def by blast
  have kk': "kk = int (Suc d)" using kk dN by simp
  have same: "ia1 ! i = ia ! i" if "d \<le> i" "i \<le> N" for i
    by (rule nth_eq_later [OF di that(1) li]) (use that li Cons.prems(5) in simp)
  have lo_d: "ia ! k \<le> ia ! d" using Cons.prems(6) [rule_format, of k d] kd dN' by simp
  have d_sd: "ia ! d \<le> ia ! Suc d" using Cons.prems(6) [rule_format, of d "Suc d"] kd dN by simp
  have p2: "\<forall>x\<in>set ds. Suc d \<le> x \<and> x < N" using gt Cons.prems(2) by auto
  have p3: "f + (d - k) \<le> Suc d" using Cons.prems(3) kd by linarith
  have p4: "Suc d \<le> N" using dN by simp
  have p5: "N < length ia1" using li Cons.prems(5) by simp
  have p6: "\<forall>i j. Suc d \<le> i \<and> i \<le> j \<and> j \<le> N \<longrightarrow> ia1 ! i \<le> ia1 ! j"
  proof (intro allI impI)
    fix i j assume h: "Suc d \<le> i \<and> i \<le> j \<and> j \<le> N"
    then have "ia ! i \<le> ia ! j" using Cons.prems(6) [rule_format, of i j] kd by simp
    then show "ia1 ! i \<le> ia1 ! j" using same [of i] same [of j] h by simp
  qed
  have p7: "0 \<le> ia1 ! Suc d" using same [of "Suc d"] p4 d_sd lo_d Cons.prems(7) by simp
  have p8: "ia1 ! N = int sz" using same [of N] dN' Cons.prems(8) by simp
  have p9: "sz \<le> length data1" using ld Cons.prems(9) by simp
  have p11: "int (b + n1) \<le> ia1 ! Suc d"
    using same [of "Suc d"] p4 d_sd lo_d Cons.prems(11) by (simp add: n1_def)
  have p12: "f + (d - k) = Suc d \<longrightarrow> int (b + n1) = ia1 ! Suc d"
  proof -
    have "f + (d - k) \<noteq> Suc d" using Cons.prems(3) kd by linarith
    then show ?thesis by (rule contrapos_np [THEN impI]) assumption
  qed
  let ?S = "filter (\<lambda>i. i \<notin> set ds) [Suc d..<N]"
  from Cons.IH [OF srt p2 p3 p4 p5 p6 p7 p8 p9 Cons.prems(10) p11 p12 Cons.prems(13), of nfix1]
  obtain kk2 nfix2 data2 ia2 where
    run: "vacuum_varlen_loop sz N ds (int (Suc d), int (f + (d - k)), nfix1, int (b + n1), data1, ia1)
          = Some (kk2, int (f + (d - k) + (N - Suc d - length ds)), nfix2,
                  int (b + n1 + sum_list (map (row_len ia1) ?S)), data2, ia2)"
    and ld2: "length data2 = length data1" and li2: "length ia2 = length ia1"
    and td2: "take (b + n1 + sum_list (map (row_len ia1) ?S)) data2
              = take (b + n1) data1 @ concat (map (payload data1 ia1) ?S)"
    and ti2: "take (f + (d - k) + (N - Suc d - length ds)) ia2
              = take (f + (d - k)) ia1 @ offsets_from (int (b + n1)) (map (row_len ia1) ?S)"
    by blast
  have rl: "map (row_len ia1) ?S = map (row_len ia) ?S"
  proof (rule map_cong [OF refl])
    fix i assume "i \<in> set ?S"
    then have "Suc d \<le> i" "i < N" by simp_all
    then show "row_len ia1 i = row_len ia i"
      using same [of i] same [of "Suc i"] by (simp add: row_len_def)
  qed
  have pl: "map (payload data1 ia1) ?S = map (payload data ia) ?S"
  proof (rule map_cong [OF refl])
    fix i assume "i \<in> set ?S"
    then have i: "Suc d \<le> i" "i < N" by simp_all
    have "ia ! d \<le> ia ! i" using Cons.prems(6) [rule_format, of d i] kd i by simp
    then have "nat (ia ! d) \<le> nat (ia ! i)" by simp
    then have "drop (nat (ia ! i)) data1 = drop (nat (ia ! i)) data"
      by (rule drop_eq_later [OF dd])
    then show "payload data1 ia1 i = payload data ia i"
      using same [of i] same [of "Suc i"] i by (simp add: payload_def)
  qed
  have cnt: "length ds \<le> N - Suc d" by (rule strict_sorted_length_le [OF srt p2])
  have fill: "f + (d - k) + (N - Suc d - length ds) = f + (N - k - length (d # ds))"
    using cnt kd dN by simp
  have split: "filter (\<lambda>i. i \<notin> set (d # ds)) [k..<N] = [k..<d] @ ?S"
    by (rule filter_deleted_split [OF kd dN gt])
  have n1s: "n1 = sum_list (map (row_len ia) [k..<d])"
    using row_len_sum [OF Cons.prems(6) kd dN'] unfolding n1_def by linarith
  have pc: "concat (map (payload data ia) [k..<d]) = take n1 (drop (nat (ia ! k)) data)"
    unfolding n1_def by (rule payload_concat [OF Cons.prems(6) Cons.prems(7) kd dN'])
  have ob: "offsets_from (int b) (map (row_len ia) [k..<d])
            = map (\<lambda>x. int b + (x - ia ! k)) (take (d - k) (drop k ia))"
    by (rule offsets_from_block [OF Cons.prems(6) kd dN' Cons.prems(5)])
  have sum: "sum_list (map (row_len ia) (filter (\<lambda>i. i \<notin> set (d # ds)) [k..<N]))
             = n1 + sum_list (map (row_len ia) ?S)"
    unfolding split n1s by simp
  have r1: "vacuum_varlen_loop sz N (d # ds) (int k, int f, nfix, int b, data, ia)
        = Some (kk2, int (f + (N - k - length (d # ds))), nfix2,
                int (b + sum_list (map (row_len ia) (filter (\<lambda>i. i \<notin> set (d # ds)) [k..<N]))),
                data2, ia2)"
    unfolding sum fill [symmetric] using st run unfolding kk' rl by (simp add: add.assoc)
  have r2: "take (b + sum_list (map (row_len ia) (filter (\<lambda>i. i \<notin> set (d # ds)) [k..<N]))) data2
        = take b data
          @ concat (map (payload data ia) (filter (\<lambda>i. i \<notin> set (d # ds)) [k..<N]))"
    unfolding sum using td2 unfolding rl pl td split by (simp add: pc add.assoc)
  have r3: "take (f + (N - k - length (d # ds))) ia2
        = take f ia
          @ offsets_from (int b) (map (row_len ia) (filter (\<lambda>i. i \<notin> set (d # ds)) [k..<N]))"
    unfolding fill [symmetric] ti2 rl ti split map_append offsets_from_append ob n1s [symmetric]
    by simp
  show ?case
    apply (intro exI conjI)
        apply (rule r1)
       apply (simp only: ld2 ld)
      apply (simp only: li2 li)
     apply (rule r2)
    apply (rule r3)
    done
qed

lemma offsets_from_bounds:
  "y \<in> set (offsets_from b ls) \<Longrightarrow> b \<le> y \<and> y \<le> b + int (sum_list ls)"
proof (induction ls arbitrary: b)
  case Nil
  then show ?case by simp
next
  case (Cons l ls)
  show ?case
  proof (cases "y = b")
    case True
    then show ?thesis by simp
  next
    case False
    then have "y \<in> set (offsets_from (b + int l) ls)" using Cons.prems by simp
    from Cons.IH [OF this] show ?thesis by simp
  qed
qed

lemma offsets_from_sorted: "sorted (offsets_from b ls @ [b + int (sum_list ls)])"
proof (induction ls arbitrary: b)
  case Nil
  then show ?case by simp
next
  case (Cons l ls)
  have "sorted (offsets_from (b + int l) ls @ [b + int l + int (sum_list ls)])" by (rule Cons.IH)
  moreover have "\<forall>y\<in>set (offsets_from (b + int l) ls). b \<le> y"
  proof
    fix y assume "y \<in> set (offsets_from (b + int l) ls)"
    from offsets_from_bounds [OF this] show "b \<le> y" by simp
  qed
  ultimately show ?case by (simp add: add.assoc)
qed

lemma length_offsets_from: "length (offsets_from b ls) = length ls"
  by (induction ls arbitrary: b) simp_all

lemma varlen_vacuum_buffers_run:
  assumes ok: "vacuum_offsets_ok N D"
    and wf: "varlen_wellformed N data_buffer (mem index_buffer)"
    and sz31: "int (buf_size data_buffer) < 2 ^ 31" and N61: "int N < 2 ^ 61"
  shows "\<exists>db' ib'. varlen_vacuum_buffers N D data_buffer index_buffer = Some (db', ib')
           \<and> sorted (take (Suc (N - length D)) (mem ib'))
           \<and> mem ib' ! 0 = 0
           \<and> mem ib' ! (N - length D) = int (buf_size db')
           \<and> take (buf_size db') (mem db')
               = surviving_payloads N D (mem data_buffer) (mem index_buffer)
           \<and> take (N - length D) (mem ib') = surviving_offsets N D (mem index_buffer)
           \<and> buf_size ib'
               = sizeof_StringOffsetT * (if N - length D = 0 then 0 else N - length D + 1)
           \<and> num_elems (encoder db') = N - length D
           \<and> is_updated db' \<and> is_updated ib'"
proof -
  define ia data sz K where "ia = mem index_buffer" and "data = mem data_buffer"
    and "sz = buf_size data_buffer" and "K = N - length D"
  let ?S = "filter (\<lambda>i. i \<notin> set D) [0..<N]"
  define B where "B = sum_list (map (row_len ia) ?S)"
  have srt: "sorted_wrt (<) D" and rng: "\<forall>x\<in>set D. 0 \<le> x \<and> x < N"
    using ok by (simp_all add: vacuum_offsets_ok_def list_all_iff)
  have Nl: "N < length ia" and z: "ia ! 0 = 0" and so: "sorted (take (Suc N) ia)"
    and top: "ia ! N = int sz" and szl: "sz \<le> length data"
    using wf by (simp_all add: varlen_wellformed_def ia_def data_def sz_def)
  have mono: "\<forall>i j. 0 \<le> i \<and> i \<le> j \<and> j \<le> N \<longrightarrow> ia ! i \<le> ia ! j"
  proof (intro allI impI)
    fix i j assume h: "0 \<le> i \<and> i \<le> j \<and> j \<le> N"
    then have "take (Suc N) ia ! i \<le> take (Suc N) ia ! j"
      using so Nl by (intro sorted_nth_mono) simp_all
    then show "ia ! i \<le> ia ! j" using h by simp
  qed
  have N63: "int N < 2 ^ 63"
  proof -
    have "(2::int) ^ 61 \<le> 2 ^ 63" by simp
    then show ?thesis using N61 by linarith
  qed
  have nn: "0 \<le> ia ! 0" and bk: "int 0 \<le> ia ! 0" and fkb: "(0::nat) = 0 \<longrightarrow> int 0 = ia ! 0"
    using z by simp_all
  from vacuum_varlen_loop_run [OF srt rng le_refl _ Nl mono nn top szl _ bk fkb N63, of 0]
  obtain kk nfix' data' ia' where
    run: "vacuum_varlen_loop sz N D (0, 0, 0, 0, data, ia) = Some (kk, int K, nfix', int B, data', ia')"
    and ld: "length data' = length data" and li: "length ia' = length ia"
    and td: "take B data' = concat (map (payload data ia) ?S)"
    and ti: "take K ia' = offsets_from 0 (map (row_len ia) ?S)"
    using sz31 unfolding sz_def [symmetric] K_def B_def by auto
  have cnt: "length D \<le> N" using strict_sorted_length_le [OF srt rng] by simp
  have Kl: "K < length ia'" using Nl li by (simp add: K_def)
  have lenS: "length ?S = K"
  proof -
    have "length (take K ia') = K" using Kl by simp
    then show ?thesis unfolding ti length_offsets_from by simp
  qed
  have Bsz: "B \<le> sz"
  proof -
    have "B \<le> sum_list (map (row_len ia) [0..<N])"
      unfolding B_def by (rule sum_list_filter_le_nat)
    moreover have "int (sum_list (map (row_len ia) [0..<N])) = ia ! N - ia ! 0"
      by (rule row_len_sum [OF mono]) simp_all
    ultimately show ?thesis using top z by linarith
  qed
  have rows: "vacuum_varlen_rows N D data_buffer ia = Some (data', ia', B)"
    unfolding vacuum_varlen_rows_def sz_def [symmetric] data_def [symmetric] run by simp
  have keep: "compact_nrows_to_keep N D = K"
  proof -
    have "int K < 2 ^ 64" using N63 by (simp add: K_def)
    then have "u64 (int K) = int K" by (intro u64_id) simp_all
    then show ?thesis using cnt by (simp add: compact_nrows_to_keep_def K_def of_nat_diff)
  qed
  have sB: "s32 (int B) = int B" using Bsz sz31 unfolding sz_def [symmetric] by (intro s32_id) simp_all
  have isz: "nat (u64 (int sizeof_StringOffsetT * (if K \<noteq> 0 then 1 + int K else 0)))
             = sizeof_StringOffsetT * (if K = 0 then 0 else K + 1)"
  proof -
    have "int K < 2 ^ 61" using N61 by (simp add: K_def)
    then have "4 * (1 + int K) < 2 ^ 64" by simp
    then have "u64 (4 * (1 + int K)) = 4 * (1 + int K)" by (intro u64_id) simp_all
    moreover have "u64 0 = 0" by (simp add: u64_def)
    moreover have "nat (4 * (1 + int K)) = 4 * (K + 1)" by simp
    ultimately show ?thesis by (simp only: sizeof_StringOffsetT_def of_nat_numeral mult_zero_right nat_zero_as_int [symmetric] if_not_P if_P split: if_splits) auto
  qed
  define db' where "db' = setUpdated (setSize (data_buffer\<lparr>mem := data',
                    encoder := setNumElems (encoder data_buffer) K\<rparr>) B)"
  define ib' where "ib' = setUpdated (setSize (index_buffer\<lparr>mem := ia'[K := int B]\<rparr>)
                    (sizeof_StringOffsetT * (if K = 0 then 0 else K + 1)))"
  have szdb: "buf_size db' = B" by (simp add: db'_def setUpdated_def setSize_def)
  have res: "varlen_vacuum_buffers N D data_buffer index_buffer = Some (db', ib')"
    unfolding varlen_vacuum_buffers_def Let_def keep ia_def [symmetric] rows
    using Kl isz sB by (simp add: db'_def ib'_def setUpdated_def setSize_def)
  have mib: "mem ib' = ia'[K := int B]" by (simp add: ib'_def setUpdated_def setSize_def)
  have mdb: "mem db' = data'" by (simp add: db'_def setUpdated_def setSize_def)
  have tkS: "take (Suc K) (ia'[K := int B]) = offsets_from 0 (map (row_len ia) ?S) @ [int B]"
    using Kl ti by (simp add: take_Suc_conv_app_nth)
  have c1: "sorted (take (Suc K) (mem ib'))"
    unfolding mib tkS using offsets_from_sorted [of 0 "map (row_len ia) ?S"] by (simp add: B_def)
  have c2: "mem ib' ! 0 = 0"
  proof (cases "K = 0")
    case True
    then have "?S = []" using lenS by simp
    then have "B = 0" by (simp add: B_def)
    then show ?thesis using True Kl by (simp add: mib)
  next
    case False
    then obtain i S' where S: "?S = i # S'" using lenS by (cases ?S) auto
    have "take K ia' ! 0 = 0" unfolding ti S by simp
    then show ?thesis using False Kl by (simp add: mib)
  qed
  have c3: "mem ib' ! K = int (buf_size db')" using Kl by (simp add: mib szdb)
  have c4: "take (buf_size db') (mem db') = surviving_payloads N D data ia"
    unfolding szdb mdb td surviving_payloads_def ..
  have c5: "take K (mem ib') = surviving_offsets N D ia"
    unfolding mib surviving_offsets_def using ti by simp
  have c6: "buf_size ib' = sizeof_StringOffsetT * (if K = 0 then 0 else K + 1)"
    by (simp add: ib'_def setUpdated_def setSize_def)
  have c7: "num_elems (encoder db') = K"
    by (simp add: db'_def setUpdated_def setSize_def setNumElems_def)
  have c8: "is_updated db'" and c9: "is_updated ib'"
    by (simp_all add: db'_def ib'_def setUpdated_def setSize_def)
  show ?thesis unfolding K_def [symmetric] ia_def [symmetric] data_def [symmetric]
    apply (intro exI conjI)
             apply (rule res)
            apply (rule c1)
           apply (rule c2)
          apply (rule c3)
         apply (rule c4)
        apply (rule c5)
       apply (rule c6)
      apply (rule c7)
     apply (rule c8)
    apply (rule c9)
    done
qed

text \<open>
  C2: a variable-length column in the format of the specification, with its offsets
  below \<open>2^31\<close> (they are \<^verbatim>\<open>int32_t\<close>), vacuumed at a strictly increasing list \<open>D\<close> of
  offsets below the row count \<open>N\<close>: the closure returns, the first \<open>N - |D| + 1\<close> offsets
  are non-decreasing, \<open>offset[0] = 0\<close>, \<open>offset[N - |D|]\<close> is the new size of the data
  buffer, the first \<open>size\<close> bytes of the data are the payloads of the surviving rows in
  their original order and the offsets are their positions, and the size of the offset
  buffer is \<open>sizeof(StringOffsetT) * (nrows_to_keep = 0 ? 0 : nrows_to_keep + 1)\<close>.
\<close>

theorem varlen_vacuum_offsets:
  assumes "vacuum_offsets_ok N D"
    and "varlen_wellformed N data_buffer (mem index_buffer)"
    and "int (buf_size data_buffer) < 2 ^ 31" and "int N < 2 ^ 61"
  shows "\<exists>db' ib'. varlen_vacuum_buffers N D data_buffer index_buffer = Some (db', ib')
           \<and> sorted (take (Suc (N - length D)) (mem ib'))
           \<and> mem ib' ! 0 = 0
           \<and> mem ib' ! (N - length D) = int (buf_size db')
           \<and> take (buf_size db') (mem db')
               = surviving_payloads N D (mem data_buffer) (mem index_buffer)
           \<and> take (N - length D) (mem ib') = surviving_offsets N D (mem index_buffer)
           \<and> buf_size ib'
               = sizeof_StringOffsetT * (if N - length D = 0 then 0 else N - length D + 1)
           \<and> num_elems (encoder db') = N - length D
           \<and> is_updated db' \<and> is_updated ib'"
  using assms by (rule varlen_vacuum_buffers_run)

theorem varlen_vacuum_offsets_witness:
  "\<exists>db' ib'.
     varlen_vacuum_buffers 4 [1, 3]
       \<lparr>mem = [102, 111, 111, 98, 97, 114, 98, 97, 122, 113, 117, 120], buf_size = 12,
        is_updated = False, encoder = fresh_encoder\<rparr>
       \<lparr>mem = [0, 3, 6, 9, 12], buf_size = 20, is_updated = False, encoder = fresh_encoder\<rparr>
       = Some (db', ib')
     \<and> sorted (take 3 (mem ib')) \<and> mem ib' ! 0 = 0 \<and> mem ib' ! 2 = int (buf_size db')
     \<and> take (buf_size db') (mem db') = [102, 111, 111, 98, 97, 122]
     \<and> take 2 (mem ib') = [0, 3]
     \<and> buf_size ib' = 12
     \<and> num_elems (encoder db') = 2"
proof -
  let ?db = "\<lparr>mem = [102, 111, 111, 98, 97, 114, 98, 97, 122, 113, 117, 120 :: byte],
              buf_size = 12, is_updated = False, encoder = fresh_encoder\<rparr>"
  let ?ib = "\<lparr>mem = [0, 3, 6, 9, 12 :: int], buf_size = 20, is_updated = False,
              encoder = fresh_encoder\<rparr>"
  have upt4: "[0..<4] = [0, 1, 2, 3]" by (simp add: upt_rec)
  have ok: "vacuum_offsets_ok 4 [1, 3]" by (simp add: vacuum_offsets_ok_def)
  have wf: "varlen_wellformed 4 ?db (mem ?ib)" by (simp add: varlen_wellformed_def)
  have sz: "int (buf_size ?db) < 2 ^ 31" by simp
  have n: "int 4 < 2 ^ 61" by simp
  have c: "4 - length [1, 3 :: nat] = 2" and c': "Suc 2 = 3" by simp_all
  have sp: "surviving_payloads 4 [1, 3] (mem ?db) (mem ?ib) = [102, 111, 111, 98, 97, 122]"
    by (simp add: surviving_payloads_def payload_def upt4)
  have so: "surviving_offsets 4 [1, 3] (mem ?ib) = [0, 3]"
    by (simp add: surviving_offsets_def row_len_def upt4)
  have e: "sizeof_StringOffsetT * (if (2::nat) = 0 then 0 else 2 + 1) = 12"
    by (simp add: sizeof_StringOffsetT_def)
  show ?thesis
    using varlen_vacuum_offsets [OF ok wf sz n]
    unfolding c c' sp so e by (elim exE conjE) (intro exI conjI; assumption)
qed

section \<open>Verification: updateColumn on an empty list of offsets\<close>

text \<open>
  C6 (amended): with an empty list of offsets updateColumn returns normally and changes
  nothing but three fields of the roll, which it sets before it tests for the empty list:
  \<open>catalog\<close>, \<open>logicalTableId\<close> and \<open>memoryLevel\<close>. The buffers, the fragments and the
  roll's \<open>dirtyChunks\<close>, \<open>dirtyChunkeys\<close>, \<open>chunkMetadata\<close> and \<open>numTuples\<close> are as before.
\<close>

theorem updateColumn_empty_offsets:
  "updateColumn X unconditionalVacuum frg fcat cat td cd fragment_id [] rhs_values rhs_type
     memory_level w
   = (None, w\<lparr>updel_roll := (updel_roll w)\<lparr>catalog := Some cat,
                  logicalTableId := getLogicalTableId cat (tableId td),
                  memoryLevel := memory_level\<rparr>\<rparr>)"
  by (simp add: updateColumn_def)

theorem updateColumn_empty_offsets_changes_roll:
  "catalog (updel_roll (snd (updateColumn example_accessors False example_fragmenter
      (example_catalog (example_type FamInteger kENCODING_NONE 8))
      (example_catalog (example_type FamInteger kENCODING_NONE 8))
      example_table (example_column (example_type FamInteger kENCODING_NONE 8)) 0 [] []
      (example_type FamInteger kENCODING_NONE 8) GPU_LEVEL
      (example_world [] (example_stats False 0 0)))))
   \<noteq> catalog (updel_roll (example_world [] (example_stats False 0 0)))"
  by (simp add: updateColumn_def example_world_def empty_roll_def)

section \<open>Verification: commit\<close>

lemma publish_effect:
  assumes "map_of (chunkMetadata (updel_roll w)) key = Some shadow"
  shows "publish key w
         = w\<lparr>updel_roll := (updel_roll w)\<lparr>numTuples := (numTuples (updel_roll w))
                 (key \<mapsto> (case numTuples (updel_roll w) key of None \<Rightarrow> 0 | Some k \<Rightarrow> k))\<rparr>,
              fragment_heap := (fragment_heap w)
                 (snd key := (fragment_heap w (snd key))
                    \<lparr>physicalNumTuples := (case numTuples (updel_roll w) key of None \<Rightarrow> 0 | Some k \<Rightarrow> k),
                     shadowNumTuples := (case numTuples (updel_roll w) key of None \<Rightarrow> 0 | Some k \<Rightarrow> k),
                     chunkMetadataMap := shadow, shadowChunkMetadataMap := shadow\<rparr>),
              trace := trace w @ [FragmentPublished (fst key) (snd key)]\<rparr>"
  using assms by (simp add: publish_def Let_def)

lemma commit_fragments_run:
  assumes "\<forall>k\<in>set ks. fst k \<noteq> None \<and> map_of (chunkMetadata (updel_roll w)) k \<noteq> None"
    and "distinct (map snd ks)"
  shows "\<exists>w'. commit_fragments ks w = (None, w')
           \<and> w' = w\<lparr>trace := trace w
                       @ concat (map (\<lambda>k. [WriteLock_fragmentInfoMutex (fst k),
                                            FragmentPublished (fst k) (snd k),
                                            WriteUnlock_fragmentInfoMutex (fst k)]) ks),
                     fragment_heap := fragment_heap w',
                     updel_roll := (updel_roll w)\<lparr>numTuples := numTuples (updel_roll w')\<rparr>\<rparr>
           \<and> (\<forall>k\<in>set ks.
                 fragment_heap w' (snd k)
                 = (fragment_heap w (snd k))
                     \<lparr>physicalNumTuples := (case numTuples (updel_roll w) k of None \<Rightarrow> 0 | Some j \<Rightarrow> j),
                      shadowNumTuples := (case numTuples (updel_roll w) k of None \<Rightarrow> 0 | Some j \<Rightarrow> j),
                      chunkMetadataMap := the (map_of (chunkMetadata (updel_roll w)) k),
                      shadowChunkMetadataMap := the (map_of (chunkMetadata (updel_roll w)) k)\<rparr>)
           \<and> (\<forall>p. p \<notin> snd ` set ks \<longrightarrow> fragment_heap w' p = fragment_heap w p)
           \<and> (\<forall>k. k \<notin> set ks \<longrightarrow> numTuples (updel_roll w') k = numTuples (updel_roll w) k)"
  using assms
proof (induction ks arbitrary: w)
  case Nil
  then show ?case by simp
next
  case (Cons key ks)
  from Cons.prems(1) obtain tid shadow where
    tid: "fst key = Some tid" and sh: "map_of (chunkMetadata (updel_roll w)) key = Some shadow"
    by auto
  define n where "n = (case numTuples (updel_roll w) key of None \<Rightarrow> 0 | Some k \<Rightarrow> k)"
  define w1 where "w1 = updateMetadata_fragmenter (Some tid) key w"
  have w1: "w1 = w\<lparr>trace := trace w @ [WriteLock_fragmentInfoMutex (Some tid),
                                       FragmentPublished (Some tid) (snd key),
                                       WriteUnlock_fragmentInfoMutex (Some tid)],
                   updel_roll := (updel_roll w)\<lparr>numTuples := (numTuples (updel_roll w))(key \<mapsto> n)\<rparr>,
                   fragment_heap := (fragment_heap w)
                     (snd key := (fragment_heap w (snd key))
                        \<lparr>physicalNumTuples := n, shadowNumTuples := n,
                         chunkMetadataMap := shadow, shadowChunkMetadataMap := shadow\<rparr>)\<rparr>"
    unfolding w1_def updateMetadata_fragmenter_def Let_def n_def
    by (simp add: publish_effect sh tid)
  have cm1: "chunkMetadata (updel_roll w1) = chunkMetadata (updel_roll w)" by (simp add: w1)
  have p1: "\<forall>k\<in>set ks. fst k \<noteq> None \<and> map_of (chunkMetadata (updel_roll w1)) k \<noteq> None"
    using Cons.prems(1) by (simp add: cm1)
  have p2: "distinct (map snd ks)" and notin: "snd key \<notin> snd ` set ks"
    using Cons.prems(2) by simp_all
  from Cons.IH [OF p1 p2] obtain w' where
    run: "commit_fragments ks w1 = (None, w')"
    and fr: "w' = w1\<lparr>trace := trace w1
                       @ concat (map (\<lambda>k. [WriteLock_fragmentInfoMutex (fst k),
                                            FragmentPublished (fst k) (snd k),
                                            WriteUnlock_fragmentInfoMutex (fst k)]) ks),
                     fragment_heap := fragment_heap w',
                     updel_roll := (updel_roll w1)\<lparr>numTuples := numTuples (updel_roll w')\<rparr>\<rparr>"
    and pub: "\<forall>k\<in>set ks.
                 fragment_heap w' (snd k)
                 = (fragment_heap w1 (snd k))
                     \<lparr>physicalNumTuples := (case numTuples (updel_roll w1) k of None \<Rightarrow> 0 | Some j \<Rightarrow> j),
                      shadowNumTuples := (case numTuples (updel_roll w1) k of None \<Rightarrow> 0 | Some j \<Rightarrow> j),
                      chunkMetadataMap := the (map_of (chunkMetadata (updel_roll w1)) k),
                      shadowChunkMetadataMap := the (map_of (chunkMetadata (updel_roll w1)) k)\<rparr>"
    and oth: "\<forall>p. p \<notin> snd ` set ks \<longrightarrow> fragment_heap w' p = fragment_heap w1 p"
    and nt: "\<forall>k. k \<notin> set ks \<longrightarrow> numTuples (updel_roll w') k = numTuples (updel_roll w1) k"
    by blast
  have c1: "commit_fragments (key # ks) w = (None, w')"
    using run by (simp add: tid w1_def)
  have c2: "w' = w\<lparr>trace := trace w
                       @ concat (map (\<lambda>k. [WriteLock_fragmentInfoMutex (fst k),
                                            FragmentPublished (fst k) (snd k),
                                            WriteUnlock_fragmentInfoMutex (fst k)]) (key # ks)),
                     fragment_heap := fragment_heap w',
                     updel_roll := (updel_roll w)\<lparr>numTuples := numTuples (updel_roll w')\<rparr>\<rparr>"
    by (subst fr) (simp add: w1 tid)
  have c3: "\<forall>k\<in>set (key # ks).
                 fragment_heap w' (snd k)
                 = (fragment_heap w (snd k))
                     \<lparr>physicalNumTuples := (case numTuples (updel_roll w) k of None \<Rightarrow> 0 | Some j \<Rightarrow> j),
                      shadowNumTuples := (case numTuples (updel_roll w) k of None \<Rightarrow> 0 | Some j \<Rightarrow> j),
                      chunkMetadataMap := the (map_of (chunkMetadata (updel_roll w)) k),
                      shadowChunkMetadataMap := the (map_of (chunkMetadata (updel_roll w)) k)\<rparr>"
  proof
    fix k assume "k \<in> set (key # ks)"
    then consider "k = key" | "k \<in> set ks" by auto
    then show "fragment_heap w' (snd k)
                 = (fragment_heap w (snd k))
                     \<lparr>physicalNumTuples := (case numTuples (updel_roll w) k of None \<Rightarrow> 0 | Some j \<Rightarrow> j),
                      shadowNumTuples := (case numTuples (updel_roll w) k of None \<Rightarrow> 0 | Some j \<Rightarrow> j),
                      chunkMetadataMap := the (map_of (chunkMetadata (updel_roll w)) k),
                      shadowChunkMetadataMap := the (map_of (chunkMetadata (updel_roll w)) k)\<rparr>"
    proof cases
      case 1
      have "fragment_heap w' (snd key) = fragment_heap w1 (snd key)" using oth notin by simp
      then show ?thesis unfolding 1 by (simp add: w1 sh n_def)
    next
      case 2
      then have "snd k \<in> snd ` set ks" by (rule imageI)
      then have ne: "snd k \<noteq> snd key" using notin by metis
      then have nek: "k \<noteq> key" by auto
      have "numTuples (updel_roll w1) k = numTuples (updel_roll w) k" using nek by (simp add: w1)
      moreover have "fragment_heap w1 (snd k) = fragment_heap w (snd k)" using ne by (simp add: w1)
      ultimately show ?thesis using pub 2 by (simp add: cm1)
    qed
  qed
  have c4: "\<forall>p. p \<notin> snd ` set (key # ks) \<longrightarrow> fragment_heap w' p = fragment_heap w p"
    using oth by (simp add: w1)
  have c5: "\<forall>k. k \<notin> set (key # ks) \<longrightarrow> numTuples (updel_roll w') k = numTuples (updel_roll w) k"
    using nt by (simp add: w1)
  show ?case
    apply (intro exI conjI)
        apply (rule c1)
       apply (rule c2)
      apply (rule c3)
     apply (rule c4)
    apply (rule c5)
    done
qed

lemma commitUpdate_run:
  assumes cat: "catalog (updel_roll w) = Some cat"
    and td: "getMetadataForTable cat (logicalTableId (updel_roll w)) = Some td"
    and nn: "list_all (\<lambda>km. fst (fst km) \<noteq> None) (chunkMetadata (updel_roll w))"
    and dist: "distinct (map (\<lambda>km. snd (fst km)) (chunkMetadata (updel_roll w)))"
  shows "\<exists>w'. commitUpdate w = (None, w')
           \<and> trace w'
               = trace w
                 @ (if persistenceLevel td = DISK_LEVEL
                    then [Checkpoint (logicalTableId (updel_roll w))] else [])
                 @ concat (map (\<lambda>km. [WriteLock_fragmentInfoMutex (fst (fst km)),
                                        FragmentPublished (fst (fst km)) (snd (fst km)),
                                        WriteUnlock_fragmentInfoMutex (fst (fst km))])
                               (chunkMetadata (updel_roll w)))
                 @ [DirtyChunksCleared]
                 @ (if memoryLevel (updel_roll w) \<noteq> GPU_LEVEL
                    then map (\<lambda>chunkey. DeleteChunksWithPrefix chunkey GPU_LEVEL)
                             (dirtyChunkeys (updel_roll w))
                    else [])
           \<and> dirtyChunks (updel_roll w') = Map.empty
           \<and> list_all
                (\<lambda>km. chunkMetadataMap (fragment_heap w' (snd (fst km))) = snd km
                     \<and> shadowChunkMetadataMap (fragment_heap w' (snd (fst km))) = snd km
                     \<and> physicalNumTuples (fragment_heap w' (snd (fst km)))
                         = (case numTuples (updel_roll w) (fst km) of None \<Rightarrow> 0 | Some n \<Rightarrow> n)
                     \<and> shadowNumTuples (fragment_heap w' (snd (fst km)))
                         = (case numTuples (updel_roll w) (fst km) of None \<Rightarrow> 0 | Some n \<Rightarrow> n))
                (chunkMetadata (updel_roll w))
           \<and> (\<forall>p. p \<notin> set (map (\<lambda>km. snd (fst km)) (chunkMetadata (updel_roll w)))
                  \<longrightarrow> fragment_heap w' p = fragment_heap w p)
           \<and> chunkMetadata (updel_roll w') = chunkMetadata (updel_roll w)
           \<and> dirtyChunkeys (updel_roll w') = dirtyChunkeys (updel_roll w)
           \<and> data_buffers w' = data_buffers w \<and> index_buffers w' = index_buffers w"
proof -
  define CM where "CM = chunkMetadata (updel_roll w)"
  define ks where "ks = map fst CM"
  define w1 where "w1 = (if persistenceLevel td = DISK_LEVEL
                         then w\<lparr>trace := trace w @ [Checkpoint (logicalTableId (updel_roll w))]\<rparr>
                         else w)"
  have r1: "updel_roll w1 = updel_roll w" and f1: "fragment_heap w1 = fragment_heap w"
    and d1: "data_buffers w1 = data_buffers w" and i1: "index_buffers w1 = index_buffers w"
    and t1: "trace w1 = trace w @ (if persistenceLevel td = DISK_LEVEL
                    then [Checkpoint (logicalTableId (updel_roll w))] else [])"
    by (simp_all add: w1_def)
  have dsnd: "distinct (map snd ks)" using dist by (simp add: ks_def CM_def comp_def)
  then have dks: "distinct ks" by (rule distinct_map [THEN iffD1, THEN conjunct1])
  have p1: "\<forall>k\<in>set ks. fst k \<noteq> None \<and> map_of (chunkMetadata (updel_roll w1)) k \<noteq> None"
  proof
    fix k assume k: "k \<in> set ks"
    then obtain km where km: "km \<in> set CM" and kk: "k = fst km" by (auto simp: ks_def)
    have "fst k \<noteq> None" using nn km kk by (simp add: list_all_iff CM_def)
    moreover have "map_of CM k \<noteq> None" using k by (simp add: map_of_eq_None_iff ks_def)
    ultimately show "fst k \<noteq> None \<and> map_of (chunkMetadata (updel_roll w1)) k \<noteq> None"
      by (simp add: r1 CM_def)
  qed
  from commit_fragments_run [OF p1 dsnd] obtain w2 where
    run: "commit_fragments ks w1 = (None, w2)"
    and fr: "w2 = w1\<lparr>trace := trace w1
                       @ concat (map (\<lambda>k. [WriteLock_fragmentInfoMutex (fst k),
                                            FragmentPublished (fst k) (snd k),
                                            WriteUnlock_fragmentInfoMutex (fst k)]) ks),
                     fragment_heap := fragment_heap w2,
                     updel_roll := (updel_roll w1)\<lparr>numTuples := numTuples (updel_roll w2)\<rparr>\<rparr>"
    and pub: "\<forall>k\<in>set ks.
                 fragment_heap w2 (snd k)
                 = (fragment_heap w1 (snd k))
                     \<lparr>physicalNumTuples := (case numTuples (updel_roll w1) k of None \<Rightarrow> 0 | Some j \<Rightarrow> j),
                      shadowNumTuples := (case numTuples (updel_roll w1) k of None \<Rightarrow> 0 | Some j \<Rightarrow> j),
                      chunkMetadataMap := the (map_of (chunkMetadata (updel_roll w1)) k),
                      shadowChunkMetadataMap := the (map_of (chunkMetadata (updel_roll w1)) k)\<rparr>"
    and oth: "\<forall>p. p \<notin> snd ` set ks \<longrightarrow> fragment_heap w2 p = fragment_heap w1 p"
    by blast
  have tr2: "trace w2 = trace w1 @ concat (map (\<lambda>k. [WriteLock_fragmentInfoMutex (fst k),
                                            FragmentPublished (fst k) (snd k),
                                            WriteUnlock_fragmentInfoMutex (fst k)]) ks)"
    by (subst fr) simp
  have cm2: "chunkMetadata (updel_roll w2) = CM" by (subst fr) (simp add: r1 CM_def)
  have dk2: "dirtyChunkeys (updel_roll w2) = dirtyChunkeys (updel_roll w)" by (subst fr) (simp add: r1)
  have ml2: "memoryLevel (updel_roll w2) = memoryLevel (updel_roll w)" by (subst fr) (simp add: r1)
  have db2: "data_buffers w2 = data_buffers w" by (subst fr) (simp add: d1)
  have ib2: "index_buffers w2 = index_buffers w" by (subst fr) (simp add: i1)
  define w3 where "w3 = w2\<lparr>updel_roll := (updel_roll w2)\<lparr>dirtyChunks := Map.empty\<rparr>,
                            trace := trace w2 @ [DirtyChunksCleared]\<rparr>"
  define w4 where "w4 = (if memoryLevel (updel_roll w3) \<noteq> GPU_LEVEL
                           then w3\<lparr>trace := trace w3
                                   @ map (\<lambda>chunkey. DeleteChunksWithPrefix chunkey GPU_LEVEL)
                                         (dirtyChunkeys (updel_roll w3))\<rparr>
                           else w3)"
  have res: "commitUpdate w = (None, w4)"
    unfolding commitUpdate_def cat option.case td Let_def w1_def [symmetric]
      r1 CM_def [symmetric] ks_def [symmetric] run
    by (simp add: w4_def w3_def)
  have tr4: "trace w4 = trace w2 @ [DirtyChunksCleared]
                 @ (if memoryLevel (updel_roll w) \<noteq> GPU_LEVEL
                    then map (\<lambda>chunkey. DeleteChunksWithPrefix chunkey GPU_LEVEL)
                             (dirtyChunkeys (updel_roll w))
                    else [])"
    by (simp add: w4_def w3_def ml2 dk2)
  have fh4: "fragment_heap w4 = fragment_heap w2" by (simp add: w4_def w3_def)
  have c2: "trace w4 = trace w
                 @ (if persistenceLevel td = DISK_LEVEL
                    then [Checkpoint (logicalTableId (updel_roll w))] else [])
                 @ concat (map (\<lambda>km. [WriteLock_fragmentInfoMutex (fst (fst km)),
                                        FragmentPublished (fst (fst km)) (snd (fst km)),
                                        WriteUnlock_fragmentInfoMutex (fst (fst km))]) CM)
                 @ [DirtyChunksCleared]
                 @ (if memoryLevel (updel_roll w) \<noteq> GPU_LEVEL
                    then map (\<lambda>chunkey. DeleteChunksWithPrefix chunkey GPU_LEVEL)
                             (dirtyChunkeys (updel_roll w))
                    else [])"
    unfolding tr4 tr2 t1 ks_def by (simp add: comp_def)
  have c3: "dirtyChunks (updel_roll w4) = Map.empty" by (simp add: w4_def w3_def)
  have c4: "list_all
                (\<lambda>km. chunkMetadataMap (fragment_heap w4 (snd (fst km))) = snd km
                     \<and> shadowChunkMetadataMap (fragment_heap w4 (snd (fst km))) = snd km
                     \<and> physicalNumTuples (fragment_heap w4 (snd (fst km)))
                         = (case numTuples (updel_roll w) (fst km) of None \<Rightarrow> 0 | Some n \<Rightarrow> n)
                     \<and> shadowNumTuples (fragment_heap w4 (snd (fst km)))
                         = (case numTuples (updel_roll w) (fst km) of None \<Rightarrow> 0 | Some n \<Rightarrow> n))
                CM"
    unfolding list_all_iff
  proof
    fix km assume km: "km \<in> set CM"
    then have k: "fst km \<in> set ks" by (simp add: ks_def)
    have "distinct (map fst CM)" using dks by (simp add: ks_def)
    then have "map_of CM (fst km) = Some (snd km)" using km by simp
    then have sh: "the (map_of (chunkMetadata (updel_roll w)) (fst km)) = snd km"
      by (simp add: CM_def)
    show "chunkMetadataMap (fragment_heap w4 (snd (fst km))) = snd km
                     \<and> shadowChunkMetadataMap (fragment_heap w4 (snd (fst km))) = snd km
                     \<and> physicalNumTuples (fragment_heap w4 (snd (fst km)))
                         = (case numTuples (updel_roll w) (fst km) of None \<Rightarrow> 0 | Some n \<Rightarrow> n)
                     \<and> shadowNumTuples (fragment_heap w4 (snd (fst km)))
                         = (case numTuples (updel_roll w) (fst km) of None \<Rightarrow> 0 | Some n \<Rightarrow> n)"
      unfolding fh4 pub [rule_format, OF k] r1 sh by simp
  qed
  have c5: "\<forall>p. p \<notin> set (map (\<lambda>km. snd (fst km)) CM) \<longrightarrow> fragment_heap w4 p = fragment_heap w p"
  proof (intro allI impI)
    fix p assume "p \<notin> set (map (\<lambda>km. snd (fst km)) CM)"
    then have "p \<notin> snd ` set ks" by (simp add: ks_def image_image)
    then show "fragment_heap w4 p = fragment_heap w p" using oth by (simp add: fh4 f1)
  qed
  have c6: "chunkMetadata (updel_roll w4) = CM" by (simp add: w4_def w3_def cm2)
  have c7: "dirtyChunkeys (updel_roll w4) = dirtyChunkeys (updel_roll w)"
    by (simp add: w4_def w3_def dk2)
  have c8: "data_buffers w4 = data_buffers w" by (simp add: w4_def w3_def db2)
  have c9: "index_buffers w4 = index_buffers w" by (simp add: w4_def w3_def ib2)
  show ?thesis unfolding CM_def [symmetric]
    apply (intro exI conjI)
            apply (rule res)
           apply (rule c2)
          apply (rule c3)
         apply (rule c4)
        apply (rule c5)
       apply (rule c6)
      apply (rule c7)
     apply (rule c8)
    apply (rule c9)
    done
qed

text \<open>
  C9: commitUpdate on a roll with a catalog (whose logical table the catalog knows, whose
  keys carry a table, each fragment under one key): the logical table is checkpointed
  exactly when its persistence level is \<open>DISK_LEVEL\<close>; then every key of
  \<open>chunkMetadata\<close> is published under the write lock of the fragmenter: the shadow map
  becomes the shadow and the live map of the fragment, the shadow tuple count
  (\<^verbatim>\<open>numTuples[key]\<close>, 0 when absent) its shadow and physical tuple count; then
  \<open>dirtyChunks\<close> is cleared; last, every key of \<open>dirtyChunkeys\<close> is evicted from the GPU
  level exactly when the memory level of the roll is not \<open>GPU_LEVEL\<close>. The trace lists
  these steps in this order: the publication of a fragment lies between the acquisition
  and the release of the lock of its table's fragmenter, the clearing of \<open>dirtyChunks\<close>
  after the last release and before the first eviction.
\<close>

theorem commitUpdate_effects:
  assumes "catalog (updel_roll w) = Some cat"
    and "getMetadataForTable cat (logicalTableId (updel_roll w)) = Some td"
    and "list_all (\<lambda>km. fst (fst km) \<noteq> None) (chunkMetadata (updel_roll w))"
    and "distinct (map (\<lambda>km. snd (fst km)) (chunkMetadata (updel_roll w)))"
  shows "\<exists>w'. commitUpdate w = (None, w')
           \<and> trace w'
               = trace w
                 @ (if persistenceLevel td = DISK_LEVEL
                    then [Checkpoint (logicalTableId (updel_roll w))] else [])
                 @ concat (map (\<lambda>km. [WriteLock_fragmentInfoMutex (fst (fst km)),
                                        FragmentPublished (fst (fst km)) (snd (fst km)),
                                        WriteUnlock_fragmentInfoMutex (fst (fst km))])
                               (chunkMetadata (updel_roll w)))
                 @ [DirtyChunksCleared]
                 @ (if memoryLevel (updel_roll w) \<noteq> GPU_LEVEL
                    then map (\<lambda>chunkey. DeleteChunksWithPrefix chunkey GPU_LEVEL)
                             (dirtyChunkeys (updel_roll w))
                    else [])
           \<and> dirtyChunks (updel_roll w') = Map.empty
           \<and> list_all
                (\<lambda>km. chunkMetadataMap (fragment_heap w' (snd (fst km))) = snd km
                     \<and> shadowChunkMetadataMap (fragment_heap w' (snd (fst km))) = snd km
                     \<and> physicalNumTuples (fragment_heap w' (snd (fst km)))
                         = (case numTuples (updel_roll w) (fst km) of None \<Rightarrow> 0 | Some n \<Rightarrow> n)
                     \<and> shadowNumTuples (fragment_heap w' (snd (fst km)))
                         = (case numTuples (updel_roll w) (fst km) of None \<Rightarrow> 0 | Some n \<Rightarrow> n))
                (chunkMetadata (updel_roll w))
           \<and> (\<forall>p. p \<notin> set (map (\<lambda>km. snd (fst km)) (chunkMetadata (updel_roll w)))
                  \<longrightarrow> fragment_heap w' p = fragment_heap w p)
           \<and> chunkMetadata (updel_roll w') = chunkMetadata (updel_roll w)
           \<and> dirtyChunkeys (updel_roll w') = dirtyChunkeys (updel_roll w)
           \<and> data_buffers w' = data_buffers w \<and> index_buffers w' = index_buffers w"
  using assms by (rule commitUpdate_run)

theorem commitUpdate_effects_witness:
  "\<exists>w'. commitUpdate example_commit_world = (None, w')
       \<and> trace w' = [Checkpoint 1, WriteLock_fragmentInfoMutex (Some 1),
                      FragmentPublished (Some 1) 0,
                      WriteUnlock_fragmentInfoMutex (Some 1),
                      DirtyChunksCleared,
                      DeleteChunksWithPrefix [1, 1, 1, 0] GPU_LEVEL]
       \<and> dirtyChunks (updel_roll w') = Map.empty
       \<and> chunkMetadataMap (fragment_heap w' 0) = [1 \<mapsto> zero_metadata\<lparr>numElements := 2\<rparr>]
       \<and> shadowChunkMetadataMap (fragment_heap w' 0) = [1 \<mapsto> zero_metadata\<lparr>numElements := 2\<rparr>]
       \<and> physicalNumTuples (fragment_heap w' 0) = 2
       \<and> shadowNumTuples (fragment_heap w' 0) = 2"
proof -
  let ?cat = "example_catalog (example_type FamInteger kENCODING_NONE 8)"
  have roll: "updel_roll example_commit_world =
          \<lparr>catalog = Some ?cat,
           logicalTableId = 1, memoryLevel = CPU_LEVEL, dirtyChunks = Map.empty,
           dirtyChunkeys = [[1, 1, 1, 0]],
           chunkMetadata = [((Some 1, 0), [1 \<mapsto> zero_metadata\<lparr>numElements := 2\<rparr>])],
           numTuples = [(Some 1, 0) \<mapsto> 2]\<rparr>"
    by (simp add: example_commit_world_def)
  have tr: "trace example_commit_world = []"
    by (simp add: example_commit_world_def example_world_def)
  have h1: "catalog (updel_roll example_commit_world) = Some ?cat" by (simp add: roll)
  have h2: "getMetadataForTable ?cat (logicalTableId (updel_roll example_commit_world))
            = Some example_table"
    by (simp add: roll example_catalog_def)
  have h3: "list_all (\<lambda>km. fst (fst km) \<noteq> None) (chunkMetadata (updel_roll example_commit_world))"
    by (simp add: roll)
  have h4: "distinct (map (\<lambda>km. snd (fst km)) (chunkMetadata (updel_roll example_commit_world)))"
    by (simp add: roll)
  from commitUpdate_effects [OF h1 h2 h3 h4] obtain w' where
    r: "commitUpdate example_commit_world = (None, w')"
    and t: "trace w'
               = trace example_commit_world
                 @ (if persistenceLevel example_table = DISK_LEVEL
                    then [Checkpoint (logicalTableId (updel_roll example_commit_world))] else [])
                 @ concat (map (\<lambda>km. [WriteLock_fragmentInfoMutex (fst (fst km)),
                                        FragmentPublished (fst (fst km)) (snd (fst km)),
                                        WriteUnlock_fragmentInfoMutex (fst (fst km))])
                               (chunkMetadata (updel_roll example_commit_world)))
                 @ [DirtyChunksCleared]
                 @ (if memoryLevel (updel_roll example_commit_world) \<noteq> GPU_LEVEL
                    then map (\<lambda>chunkey. DeleteChunksWithPrefix chunkey GPU_LEVEL)
                             (dirtyChunkeys (updel_roll example_commit_world))
                    else [])"
    and d: "dirtyChunks (updel_roll w') = Map.empty"
    and p: "list_all
                (\<lambda>km. chunkMetadataMap (fragment_heap w' (snd (fst km))) = snd km
                     \<and> shadowChunkMetadataMap (fragment_heap w' (snd (fst km))) = snd km
                     \<and> physicalNumTuples (fragment_heap w' (snd (fst km)))
                         = (case numTuples (updel_roll example_commit_world) (fst km) of None \<Rightarrow> 0 | Some n \<Rightarrow> n)
                     \<and> shadowNumTuples (fragment_heap w' (snd (fst km)))
                         = (case numTuples (updel_roll example_commit_world) (fst km) of None \<Rightarrow> 0 | Some n \<Rightarrow> n))
                (chunkMetadata (updel_roll example_commit_world))"
    by (elim exE conjE)
  have t': "trace w' = [Checkpoint 1, WriteLock_fragmentInfoMutex (Some 1),
                      FragmentPublished (Some 1) 0,
                      WriteUnlock_fragmentInfoMutex (Some 1),
                      DirtyChunksCleared,
                      DeleteChunksWithPrefix [1, 1, 1, 0] GPU_LEVEL]"
    unfolding t tr by (simp add: roll example_table_def)
  have p': "chunkMetadataMap (fragment_heap w' 0) = [1 \<mapsto> zero_metadata\<lparr>numElements := 2\<rparr>]
       \<and> shadowChunkMetadataMap (fragment_heap w' 0) = [1 \<mapsto> zero_metadata\<lparr>numElements := 2\<rparr>]
       \<and> physicalNumTuples (fragment_heap w' 0) = 2
       \<and> shadowNumTuples (fragment_heap w' 0) = 2"
    using p by (simp add: roll)
  show ?thesis
    apply (rule exI [of _ w'])
    apply (intro conjI)
          apply (rule r)
         apply (rule t')
        apply (rule d)
       apply (rule p' [THEN conjunct1])
      apply (rule p' [THEN conjunct2, THEN conjunct1])
     apply (rule p' [THEN conjunct2, THEN conjunct2, THEN conjunct1])
    apply (rule p' [THEN conjunct2, THEN conjunct2, THEN conjunct2])
    done
qed

section \<open>Verification: what the workers leave alone\<close>













section \<open>Verification: the failures of compactRows\<close>









section \<open>Verification: the overflow check of a decimal column\<close>












section \<open>Verification: a null or empty string as the right-hand side\<close>







section \<open>Verification: the statistics of the vacuum and the initial values\<close>

lemma fixlen_stats_loop_int64:
  assumes "\<not> is_fixlen_array ct" and "\<not> is_fp ct"
  shows "fixlen_stats_loop X ct chunk es ci n daddr (w, ts)
         = (None, w, (set_chunk_stats_int64 X ct (mem (get_buffer w chunk)) ci ^^ n) ts)"
  using assms
  by (induction n arbitrary: daddr ts) (simp_all add: Let_def funpow_swap1)

lemma ex_vacuum_rows:
  "vacuum_fixlen_rows 8 5 [1, 3] example_bigint_rows
   = Some ([10, 0, 0, 0, 0, 0, 0, 0, 30, 0, 0, 0, 0, 0, 0, 0, 50, 0, 0, 0, 0, 0, 0, 0,
            40, 0, 0, 0, 0, 0, 0, 0, 50, 0, 0, 0, 0, 0, 0, 0], 24)"
  by (simp add: vacuum_fixlen_rows_def vacuum_fixlen_step_def memmove_def s64_def u64_def
      Let_def example_bigint_rows_def)

lemma ex_first_row:
  "get_scalar_int64 example_accessors (example_type FamInteger kENCODING_NONE 8)
     (10 # 0 # 0 # 0 # 0 # 0 # 0 # 0 # bs) = (False, 10)"
  by (simp add: example_accessors_def example_type_def le_signed_def le_value_def)

lemma ex_fixlen_vacuum_result:
  "take 24 (mem (get_buffer (fst (snd (fixlen_vacuum example_accessors
        (example_catalog (example_type FamInteger kENCODING_NONE 8)) 0
        (example_chunk (example_type FamInteger kENCODING_NONE 8)) [1, 3]
        (compact_nrows_to_keep 5 [1, 3]) 0 (example_vacuum_world, compactRows_init 1))))
      (example_chunk (example_type FamInteger kENCODING_NONE 8))))
   = [10, 0, 0, 0, 0, 0, 0, 0] @ [30, 0, 0, 0, 0, 0, 0, 0] @ [50, 0, 0, 0, 0, 0, 0, 0]
   \<and> snd (snd (fixlen_vacuum example_accessors
        (example_catalog (example_type FamInteger kENCODING_NONE 8)) 0
        (example_chunk (example_type FamInteger kENCODING_NONE 8)) [1, 3]
        (compact_nrows_to_keep 5 [1, 3]) 0 (example_vacuum_world, compactRows_init 1)))
     = \<lparr>has_null_per_thread = [False], max_double_per_thread = [DBL_MIN],
        min_double_per_thread = [DBL_MAX], max_int64t_per_thread = [10],
        min_int64t_per_thread = [- 1],
        folded = [FoldedInt64 10, FoldedInt64 10, FoldedInt64 10]\<rparr>"
proof -
  let ?t = "example_type FamInteger kENCODING_NONE 8"
  have k: "compact_nrows_to_keep 5 [1, 3] = 3"
    by (simp add: compact_nrows_to_keep_def u64_def)
  have t: "columnType (column_desc (example_chunk ?t)) = ?t"
    by (simp add: example_chunk_def example_column_def)
  have es: "vacuum_element_size ?t = 8" by (simp add: vacuum_element_size_def example_type_def)
  have na: "\<not> is_fixlen_array ?t" "\<not> is_fp ?t"
    by (simp_all add: example_type_def is_fp_def)
  have n: "physicalNumTuples (fragment_heap example_vacuum_world 0) = 5"
    by (simp add: example_vacuum_world_def)
  have m: "mem (get_buffer example_vacuum_world (example_chunk ?t)) = example_bigint_rows"
    by (simp add: example_vacuum_world_def example_world_def example_buffer_def get_buffer_def)
  have i: "compactRows_init 1 = \<lparr>has_null_per_thread = [False], max_double_per_thread = [DBL_MIN],
      min_double_per_thread = [DBL_MAX], max_int64t_per_thread = [0],
      min_int64t_per_thread = [- 1], folded = []\<rparr>"
    by (simp add: compactRows_init_def s64_def UINT64_MAX_def)
  define w1 where "w1 = set_chunk_metadata (example_catalog ?t) 0 (example_chunk ?t) 3
      (set_buffer (example_chunk ?t)
         (setUpdated (setSize ((get_buffer example_vacuum_world (example_chunk ?t))
            \<lparr>mem := [10, 0, 0, 0, 0, 0, 0, 0, 30, 0, 0, 0, 0, 0, 0, 0, 50, 0, 0, 0, 0, 0, 0, 0,
                     40, 0, 0, 0, 0, 0, 0, 0, 50, 0, 0, 0, 0, 0, 0, 0],
             encoder := setNumElems (encoder (get_buffer example_vacuum_world (example_chunk ?t))) 3\<rparr>)
            24))
         example_vacuum_world)"
  have fv: "fixlen_vacuum example_accessors (example_catalog ?t) 0 (example_chunk ?t) [1, 3]
              (compact_nrows_to_keep 5 [1, 3]) 0 (example_vacuum_world, compactRows_init 1)
            = fixlen_stats_loop example_accessors ?t (example_chunk ?t) 8 0 3 0
                (w1, compactRows_init 1)"
    unfolding fixlen_vacuum_def Let_def fst_conv snd_conv t es n m ex_vacuum_rows k w1_def
    by (simp only: option.case prod.case)
  have m1: "mem (get_buffer w1 (example_chunk ?t))
            = [10, 0, 0, 0, 0, 0, 0, 0, 30, 0, 0, 0, 0, 0, 0, 0, 50, 0, 0, 0, 0, 0, 0, 0,
               40, 0, 0, 0, 0, 0, 0, 0, 50, 0, 0, 0, 0, 0, 0, 0]"
    by (simp add: w1_def get_buffer_def set_chunk_metadata_buffer set_buffer_def setUpdated_def
        setSize_def)
  have st: "(set_chunk_stats_int64 example_accessors ?t
               [10, 0, 0, 0, 0, 0, 0, 0, 30, 0, 0, 0, 0, 0, 0, 0, 50, 0, 0, 0, 0, 0, 0, 0,
                40, 0, 0, 0, 0, 0, 0, 0, 50, 0, 0, 0, 0, 0, 0, 0] 0 ^^ 3) (compactRows_init 1)
            = \<lparr>has_null_per_thread = [False], max_double_per_thread = [DBL_MIN],
               min_double_per_thread = [DBL_MAX], max_int64t_per_thread = [10],
               min_int64t_per_thread = [- 1],
               folded = [FoldedInt64 10, FoldedInt64 10, FoldedInt64 10]\<rparr>"
    unfolding i
    by (simp add: numeral_3_eq_3 set_chunk_stats_int64_def ex_first_row fold_int64_def
        set_minmax_def)
  have res: "fixlen_vacuum example_accessors (example_catalog ?t) 0 (example_chunk ?t) [1, 3]
              (compact_nrows_to_keep 5 [1, 3]) 0 (example_vacuum_world, compactRows_init 1)
            = (None, w1,
               \<lparr>has_null_per_thread = [False], max_double_per_thread = [DBL_MIN],
               min_double_per_thread = [DBL_MAX], max_int64t_per_thread = [10],
               min_int64t_per_thread = [- 1],
               folded = [FoldedInt64 10, FoldedInt64 10, FoldedInt64 10]\<rparr>)"
    unfolding fv fixlen_stats_loop_int64 [OF na] m1 st by (rule refl)
  show ?thesis unfolding res by (simp add: m1)
qed

text \<open>
  C4: the run of the \<^verbatim>\<open>fixlen_vacuum\<close> closure on the \<^verbatim>\<open>BIGINT\<close> fragment 10, 20, 30, 40,
  50 with the deleted offsets 1 and 3. The surviving rows are 10, 30, 50; the statistics
  loop hands \<^verbatim>\<open>data_addr\<close>, the address of the first element, to \<^verbatim>\<open>set_chunk_stats\<close> in
  each of its three rounds, so that 10 is folded three times and the maximum of the
  column is 10. The pointer \<^verbatim>\<open>daddr\<close> that the loop advances is used by the branch of the
  fixed-length arrays only.
\<close>

theorem fixlen_vacuum_folds_first_row:
  "take 24 (mem (get_buffer (fst (snd (fixlen_vacuum example_accessors
        (example_catalog (example_type FamInteger kENCODING_NONE 8)) 0
        (example_chunk (example_type FamInteger kENCODING_NONE 8)) [1, 3]
        (compact_nrows_to_keep 5 [1, 3]) 0 (example_vacuum_world, compactRows_init 1))))
      (example_chunk (example_type FamInteger kENCODING_NONE 8))))
   = [10, 0, 0, 0, 0, 0, 0, 0] @ [30, 0, 0, 0, 0, 0, 0, 0] @ [50, 0, 0, 0, 0, 0, 0, 0]
   \<and> folded (snd (snd (fixlen_vacuum example_accessors
        (example_catalog (example_type FamInteger kENCODING_NONE 8)) 0
        (example_chunk (example_type FamInteger kENCODING_NONE 8)) [1, 3]
        (compact_nrows_to_keep 5 [1, 3]) 0 (example_vacuum_world, compactRows_init 1))))
     = [FoldedInt64 10, FoldedInt64 10, FoldedInt64 10]
   \<and> max_int64t_per_thread (snd (snd (fixlen_vacuum example_accessors
        (example_catalog (example_type FamInteger kENCODING_NONE 8)) 0
        (example_chunk (example_type FamInteger kENCODING_NONE 8)) [1, 3]
        (compact_nrows_to_keep 5 [1, 3]) 0 (example_vacuum_world, compactRows_init 1))))
     = [10]"
  by (simp add: ex_fixlen_vacuum_result del: One_nat_def)

lemma DBL_MIN_pos: "0 < DBL_MIN"
  by (simp add: DBL_MIN_def)

text \<open>
  C5: the initial values of the accumulators. In \<^verbatim>\<open>updateColumn\<close> and in \<^verbatim>\<open>compactRows\<close>
  the maximum over the doubles starts at \<^verbatim>\<open>std::numeric_limits<double>::min()\<close>, the least
  positive normal double, so that after folding \<open>-1\<close> it is still that value. In
  \<^verbatim>\<open>compactRows\<close> the \<^verbatim>\<open>int64_t\<close> maximum and minimum start at the limits of \<^verbatim>\<open>uint64_t\<close>,
  that is at 0 and, converted, at \<open>-1\<close>: after folding \<open>-5\<close> the maximum is 0, after
  folding 5 the minimum is \<open>-1\<close>, and the vacuum of the fragment 10, 20, 30, 40, 50
  ends with the minimum \<open>-1\<close>.
\<close>

theorem accumulators_not_neutral:
  "max_double_per_thread (updateColumn_init 1) = [DBL_MIN]
   \<and> max_double_per_thread (compactRows_init 1) = [DBL_MIN]
   \<and> 0 < DBL_MIN
   \<and> max_double_per_thread (fold_double 0 (- 1) (updateColumn_init 1)) = [DBL_MIN]
   \<and> fold (\<lambda>x acc. max acc x)
        (max_double_per_thread (fold_double 0 (- 1) (updateColumn_init 1))) DBL_MIN = DBL_MIN
   \<and> max_int64t_per_thread (compactRows_init 1) = [0]
   \<and> min_int64t_per_thread (compactRows_init 1) = [- 1]
   \<and> max_int64t_per_thread (fold_int64 0 (- 5) (compactRows_init 1)) = [0]
   \<and> min_int64t_per_thread (fold_int64 0 5 (compactRows_init 1)) = [- 1]
   \<and> min_int64t_per_thread (snd (snd (fixlen_vacuum example_accessors
        (example_catalog (example_type FamInteger kENCODING_NONE 8)) 0
        (example_chunk (example_type FamInteger kENCODING_NONE 8)) [1, 3]
        (compact_nrows_to_keep 5 [1, 3]) 0 (example_vacuum_world, compactRows_init 1))))
     = [- 1]"
proof -
  have n: "\<not> - 1 > DBL_MIN" using DBL_MIN_pos by linarith
  show ?thesis
    unfolding ex_fixlen_vacuum_result [THEN conjunct2]
    by (simp add: updateColumn_init_def compactRows_init_def s64_def UINT64_MAX_def
        fold_double_def fold_int64_def set_minmax_def DBL_MIN_pos n)
qed

section \<open>Verification: the statistics of an update\<close>

lemma fold_min_le: "fold (\<lambda>x acc. min acc x) xs (a :: 'a :: linorder) \<le> a"
proof (induction xs arbitrary: a)
  case Nil
  then show ?case by simp
next
  case (Cons x xs)
  have "fold (\<lambda>x acc. min acc x) xs (min a x) \<le> min a x" by (rule Cons.IH)
  then show ?case by simp
qed

lemma fold_min_le_nth:
  "c < length xs \<Longrightarrow> fold (\<lambda>x acc. min acc x) xs (a :: 'a :: linorder) \<le> xs ! c"
proof (induction xs arbitrary: a c)
  case Nil
  then show ?case by simp
next
  case (Cons x xs)
  show ?case
  proof (cases c)
    case 0
    have "fold (\<lambda>x acc. min acc x) xs (min a x) \<le> min a x" by (rule fold_min_le)
    then show ?thesis using 0 by simp
  next
    case (Suc k)
    then have "k < length xs" using Cons.prems by simp
    from Cons.IH [OF this] show ?thesis using Suc by simp
  qed
qed

lemma fold_max_ge: "(a :: 'a :: linorder) \<le> fold (\<lambda>x acc. max acc x) xs a"
proof (induction xs arbitrary: a)
  case Nil
  then show ?case by simp
next
  case (Cons x xs)
  have "max a x \<le> fold (\<lambda>x acc. max acc x) xs (max a x)" by (rule Cons.IH)
  then show ?case by simp
qed

lemma fold_max_ge_nth:
  "c < length xs \<Longrightarrow> xs ! c \<le> fold (\<lambda>x acc. max acc x) xs (a :: 'a :: linorder)"
proof (induction xs arbitrary: a c)
  case Nil
  then show ?case by simp
next
  case (Cons x xs)
  show ?case
  proof (cases c)
    case 0
    have "max a x \<le> fold (\<lambda>x acc. max acc x) xs (max a x)" by (rule fold_max_ge)
    then show ?thesis using 0 by simp
  next
    case (Suc k)
    then have "k < length xs" using Cons.prems by simp
    from Cons.IH [OF this] show ?thesis using Suc by simp
  qed
qed

lemma fold_or: "fold (\<lambda>h acc. acc \<or> h) hs b = (b \<or> (\<exists>c<length hs. hs ! c))"
proof (induction hs arbitrary: b)
  case Nil
  then show ?case by simp
next
  case (Cons h hs)
  have "(\<exists>c<length (h # hs). (h # hs) ! c) = (h \<or> (\<exists>c<length hs. hs ! c))"
    by (auto simp: less_Suc_eq_0_disj)
  then show ?case by (simp add: Cons.IH)
qed

lemma cover_init: "accumulators_cover n (updateColumn_init n)"
  by (simp add: accumulators_cover_def updateColumn_init_def)

lemma min_update_keeps:
  assumes "\<exists>c'<n. xs ! c' \<le> (x :: 'a :: linorder)" and "length xs = n"
  shows "\<exists>c'<n. xs[c := (if v < xs ! c then v else xs ! c)] ! c' \<le> x"
proof -
  from assms(1) obtain c' where c': "c' < n" "xs ! c' \<le> x" by blast
  have "xs[c := (if v < xs ! c then v else xs ! c)] ! c' \<le> x"
    using c' assms(2) by (cases "c' = c") (auto simp: nth_list_update)
  with c'(1) show ?thesis by blast
qed

lemma max_update_keeps:
  assumes "\<exists>c'<n. (x :: 'a :: linorder) \<le> xs ! c'" and "length xs = n"
  shows "\<exists>c'<n. x \<le> xs[c := (if xs ! c < v then v else xs ! c)] ! c'"
proof -
  from assms(1) obtain c' where c': "c' < n" "x \<le> xs ! c'" by blast
  have "x \<le> xs[c := (if xs ! c < v then v else xs ! c)] ! c'"
    using c' assms(2) by (cases "c' = c") (auto simp: nth_list_update)
  with c'(1) show ?thesis by blast
qed

lemma min_update_new:
  assumes "c < n" and "length xs = n"
  shows "\<exists>c'<n. xs[c := (if v < xs ! c then v else xs ! c)] ! c' \<le> (v :: 'a :: linorder)"
  using assms by (intro exI [of _ c]) auto

lemma max_update_new:
  assumes "c < n" and "length xs = n"
  shows "\<exists>c'<n. (v :: 'a :: linorder) \<le> xs[c := (if xs ! c < v then v else xs ! c)] ! c'"
  using assms by (intro exI [of _ c]) auto

lemma cover_fold_int64:
  assumes c: "c < n" and cov: "accumulators_cover n ts"
  shows "accumulators_cover n (fold_int64 c v ts)"
proof -
  let ?mn = "(min_int64t_per_thread ts)
               [c := (if v < min_int64t_per_thread ts ! c then v else min_int64t_per_thread ts ! c)]"
  let ?mx = "(max_int64t_per_thread ts)
               [c := (if max_int64t_per_thread ts ! c < v then v else max_int64t_per_thread ts ! c)]"
  have eq: "fold_int64 c v ts
            = ts\<lparr>min_int64t_per_thread := ?mn, max_int64t_per_thread := ?mx,
                 folded := folded ts @ [FoldedInt64 v]\<rparr>"
    by (simp add: fold_int64_def set_minmax_def)
  from cov have lmn: "length (min_int64t_per_thread ts) = n"
    and lmx: "length (max_int64t_per_thread ts) = n"
    and I: "\<And>x. FoldedInt64 x \<in> set (folded ts)
             \<Longrightarrow> (\<exists>c<n. min_int64t_per_thread ts ! c \<le> x)
                 \<and> (\<exists>c<n. x \<le> max_int64t_per_thread ts ! c)"
    by (simp_all add: accumulators_cover_def)
  have I': "(\<exists>c'<n. ?mn ! c' \<le> x) \<and> (\<exists>c'<n. x \<le> ?mx ! c')"
    if "x = v \<or> FoldedInt64 x \<in> set (folded ts)" for x
    using that
  proof
    assume "x = v"
    then show ?thesis
      using min_update_new [OF c lmn, of v] max_update_new [OF c lmx, of v] by simp
  next
    assume "FoldedInt64 x \<in> set (folded ts)"
    from I [OF this] show ?thesis
      using min_update_keeps [OF _ lmn, of x c v] max_update_keeps [OF _ lmx, of x c v] by simp
  qed
  show ?thesis
    unfolding eq using cov I' by (simp add: accumulators_cover_def)
qed

lemma cover_fold_double:
  assumes c: "c < n" and cov: "accumulators_cover n ts"
  shows "accumulators_cover n (fold_double c v ts)"
proof -
  let ?mn = "(min_double_per_thread ts)
               [c := (if v < min_double_per_thread ts ! c then v else min_double_per_thread ts ! c)]"
  let ?mx = "(max_double_per_thread ts)
               [c := (if max_double_per_thread ts ! c < v then v else max_double_per_thread ts ! c)]"
  have eq: "fold_double c v ts
            = ts\<lparr>min_double_per_thread := ?mn, max_double_per_thread := ?mx,
                 folded := folded ts @ [FoldedDouble v]\<rparr>"
    by (simp add: fold_double_def set_minmax_def)
  from cov have lmn: "length (min_double_per_thread ts) = n"
    and lmx: "length (max_double_per_thread ts) = n"
    and I: "\<And>x. FoldedDouble x \<in> set (folded ts)
             \<Longrightarrow> (\<exists>c<n. min_double_per_thread ts ! c \<le> x)
                 \<and> (\<exists>c<n. x \<le> max_double_per_thread ts ! c)"
    by (simp_all add: accumulators_cover_def)
  have I': "(\<exists>c'<n. ?mn ! c' \<le> x) \<and> (\<exists>c'<n. x \<le> ?mx ! c')"
    if "x = v \<or> FoldedDouble x \<in> set (folded ts)" for x
    using that
  proof
    assume "x = v"
    then show ?thesis
      using min_update_new [OF c lmn, of v] max_update_new [OF c lmx, of v] by simp
  next
    assume "FoldedDouble x \<in> set (folded ts)"
    from I [OF this] show ?thesis
      using min_update_keeps [OF _ lmn, of x c v] max_update_keeps [OF _ lmx, of x c v] by simp
  qed
  show ?thesis
    unfolding eq using cov I' by (simp add: accumulators_cover_def)
qed

lemma cover_null:
  assumes c: "c < n" and cov: "accumulators_cover n ts"
  shows "accumulators_cover n
           (ts\<lparr>has_null_per_thread := (has_null_per_thread ts)[c := True],
               folded := folded ts @ [WroteNull]\<rparr>)"
proof -
  from cov have l: "length (has_null_per_thread ts) = n" by (simp add: accumulators_cover_def)
  have "(has_null_per_thread ts)[c := True] ! c" using c l by simp
  with c have "\<exists>c'<n. (has_null_per_thread ts)[c := True] ! c'" by blast
  then show ?thesis using cov by (simp add: accumulators_cover_def)
qed

lemma update_int64_cover':
  "update_int64 X cd chunk rhs_type c p v st = (r, st') \<Longrightarrow> c < n
   \<Longrightarrow> accumulators_cover n (snd st) \<Longrightarrow> accumulators_cover n (snd st')"
  by (auto simp: update_int64_def Let_def cover_fold_int64 cover_fold_double
      split: if_splits option.splits)

lemma update_double_cover':
  "update_double X cd chunk c p v st = (r, st') \<Longrightarrow> c < n
   \<Longrightarrow> accumulators_cover n (snd st) \<Longrightarrow> accumulators_cover n (snd st')"
  by (auto simp: update_double_def Let_def cover_fold_int64 cover_fold_double
      split: if_splits option.splits)

lemma update_float_cover':
  "update_float X cd chunk c p v st = (r, st') \<Longrightarrow> c < n
   \<Longrightarrow> accumulators_cover n (snd st) \<Longrightarrow> accumulators_cover n (snd st')"
  by (auto simp: update_float_def Let_def cover_fold_int64 cover_fold_double
      split: if_splits option.splits)

lemma update_string_cover':
  "update_string X cd chunk sd c p s st = (r, st') \<Longrightarrow> c < n
   \<Longrightarrow> accumulators_cover n (snd st) \<Longrightarrow> accumulators_cover n (snd st')"
  by (auto simp: update_string_def Let_def cover_fold_int64 cover_fold_double cover_null
      split: if_splits option.splits prod.splits)

lemma update_element_cover':
  "update_element X cat cd chunk sd rhs_type fo rv c r st = (res, st') \<Longrightarrow> c < n
   \<Longrightarrow> accumulators_cover n (snd st) \<Longrightarrow> accumulators_cover n (snd st')"
  by (auto simp: update_element_def Let_def
      split: sum.splits ScalarTargetValue.splits
      dest: update_int64_cover' update_double_cover' update_float_cover' update_string_cover')

lemma update_element_cover:
  assumes "c < n" and "accumulators_cover n (snd st)"
  shows "accumulators_cover n
           (snd (snd (update_element X cat cd chunk sd rhs_type fo rv c r st)))"
  using update_element_cover' [OF prod.collapse [symmetric] assms] by simp

lemma worker_loop_cover:
  assumes "\<And>r st. accumulators_cover n (snd st) \<Longrightarrow> accumulators_cover n (snd (snd (element r st)))"
  shows "accumulators_cover n (snd st)
         \<Longrightarrow> accumulators_cover n (snd (snd (worker_loop element rows st)))"
proof (induction rows arbitrary: st)
  case Nil
  then show ?case by simp
next
  case (Cons r rows)
  obtain e st1 where el: "element r st = (e, st1)" by (cases "element r st")
  from assms [OF Cons.prems, of r] el have c1: "accumulators_cover n (snd st1)" by simp
  show ?case
  proof (cases e)
    case None
    from Cons.IH [OF c1] show ?thesis using el None by simp
  next
    case (Some x)
    then show ?thesis using el c1 by simp
  qed
qed

lemma worker_cover:
  assumes "c < n" and "accumulators_cover n (snd st)"
  shows "accumulators_cover n
           (snd (snd (worker X frg cat td cd chunk rhs_type fo rv segsz c rbegin st)))"
proof (cases "worker_prologue frg cat td cd")
  case (Inl e)
  then show ?thesis using assms(2) by (simp add: worker_def)
next
  case (Inr sd)
  have "accumulators_cover n
          (snd (snd (worker_loop (update_element X cat cd chunk sd rhs_type fo rv c)
                       [rbegin..<min (rbegin + segsz) (length fo)] st)))"
    by (rule worker_loop_cover [OF _ assms(2)]) (rule update_element_cover [OF assms(1)])
  then show ?thesis using Inr by (simp add: worker_def)
qed

lemma run_threads_invariant:
  assumes "\<And>c rb st. c < n \<Longrightarrow> P st \<Longrightarrow> P (snd (task c rb st))"
    and "P (snd acc)" and "rbegin = c * segsz" and "nrow \<le> n * segsz"
  shows "P (snd (run_threads task nrow segsz rbegin c acc))"
  using assms
proof (induction task nrow segsz rbegin c acc rule: run_threads.induct)
  case (1 task nrow segsz rbegin c acc)
  show ?case
  proof (cases "rbegin < nrow \<and> 0 < segsz")
    case False
    then have "run_threads task nrow segsz rbegin c acc = acc"
      by (subst run_threads.simps) (simp only: if_False)
    with "1.prems"(2) show ?thesis by simp
  next
    case True
    obtain e st1 where t: "task c rbegin (snd acc) = (e, st1)" by (cases "task c rbegin (snd acc)")
    have "c * segsz < nrow" using True "1.prems"(3) by simp
    then have "c * segsz < n * segsz" using "1.prems"(4) by (rule less_le_trans)
    then have cn: "c < n" by simp
    from "1.prems"(1) [OF cn "1.prems"(2), of rbegin] t have p1: "P st1" by simp
    have eq: "run_threads task nrow segsz rbegin c acc
              = run_threads task nrow segsz (rbegin + segsz) (Suc c)
                  (first_failure (fst acc) e, st1)"
      using True t by (subst run_threads.simps) simp
    have nx: "rbegin + segsz = Suc c * segsz" using "1.prems"(3) by simp
    have "P (snd (run_threads task nrow segsz (rbegin + segsz) (Suc c)
                    (first_failure (fst acc) e, st1)))"
      by (rule "1.IH" [OF True t [symmetric] "1.prems"(1) _ nx "1.prems"(4)]) (simp_all add: p1)
    then show ?thesis unfolding eq .
  qed
qed

lemma segments_cover_rows:
  assumes "0 < (ncore :: nat)"
  shows "nrow \<le> ncore * ((nrow + ncore - 1) div ncore)"
proof -
  have "nrow + ncore - 1 = ncore * ((nrow + ncore - 1) div ncore) + (nrow + ncore - 1) mod ncore"
    by simp
  moreover have "(nrow + ncore - 1) mod ncore < ncore" using assms by simp
  ultimately show ?thesis by linarith
qed

end
